theory Spec2Isabelle
  imports Main "HOL-Library.AList"
begin

section \<open>Python values and builtins\<close>

text \<open>
  The source is \<^verbatim>\<open>build_coffee_kg.py\<close>. Python strings are modelled as Isabelle strings whose
  characters are the code points below 256; \<^verbatim>\<open>str.strip\<close>, \<^verbatim>\<open>str.lower\<close> and the character
  class \<^verbatim>\<open>[a-z0-9]\<close> are written out on that range.

  Python floats are left abstract (the type variable \<open>'n\<close>): the builtins that depend on the
  floating-point format are the fields of the record \<open>py\<close>, passed to every function that
  calls them. \<open>float_of_str s\<close> is \<^verbatim>\<open>float(s)\<close> for a string, with \<open>None\<close> for its
  \<^verbatim>\<open>ValueError\<close>; \<open>float_of_int\<close> is \<^verbatim>\<open>float(i)\<close> for an integer; \<open>str_of_float\<close> is
  \<^verbatim>\<open>str(x)\<close>; \<open>isnan\<close> recognises NaN, the value pandas stores in an empty cell;
  \<open>zero_float\<close> is \<^verbatim>\<open>0.0\<close>.
\<close>

datatype 'n pyval = PNone | PStr string | PFloat 'n | PInt int | PBool bool

datatype error = MissingRequiredColumns "string list" | ValueError | TypeError

record 'n py =
  float_of_str :: "string \<Rightarrow> 'n option"
  float_of_int :: "int \<Rightarrow> 'n"
  str_of_float :: "'n \<Rightarrow> string"
  isnan :: "'n \<Rightarrow> bool"
  zero_float :: 'n

definition ebind :: "error + 'a \<Rightarrow> ('a \<Rightarrow> error + 'b) \<Rightarrow> error + 'b" where
  "ebind m f = (case m of Inl e \<Rightarrow> Inl e | Inr x \<Rightarrow> f x)"

definition isspace :: "char \<Rightarrow> bool" where
  "isspace c \<longleftrightarrow> (let n = (of_char c :: nat) in
     (9 \<le> n \<and> n \<le> 13) \<or> (28 \<le> n \<and> n \<le> 32) \<or> n = 133 \<or> n = 160)"

definition lower_char :: "char \<Rightarrow> char" where
  "lower_char c = (let n = (of_char c :: nat) in
     if (65 \<le> n \<and> n \<le> 90) \<or> (192 \<le> n \<and> n \<le> 222 \<and> n \<noteq> 215)
     then char_of (n + 32) else c)"

definition strip_by :: "(char \<Rightarrow> bool) \<Rightarrow> string \<Rightarrow> string" where
  "strip_by P s = rev (dropWhile P (rev (dropWhile P s)))"

definition py_strip :: "string \<Rightarrow> string" where
  "py_strip s = strip_by isspace s"

definition is_digit :: "char \<Rightarrow> bool" where
  "is_digit c \<longleftrightarrow> (let n = (of_char c :: nat) in 48 \<le> n \<and> n \<le> 57)"

definition digit_val :: "char \<Rightarrow> int" where
  "digit_val c = int (of_char c) - 48"

text \<open>The digits of an integer literal: digits with single underscores between them.\<close>

fun digits_ok :: "string \<Rightarrow> bool" where
  "digits_ok [] = False"
| "digits_ok [c] = is_digit c"
| "digits_ok (c # d # cs) =
     (is_digit c \<and> (if d = CHR ''_'' then digits_ok cs else digits_ok (d # cs)))"

text \<open>\<^verbatim>\<open>int(s)\<close> for a string, \<open>None\<close> for its \<^verbatim>\<open>ValueError\<close>.\<close>

definition int_of_str :: "string \<Rightarrow> int option" where
  "int_of_str s =
     (let t = py_strip s;
          neg = (t \<noteq> [] \<and> hd t = CHR ''-'');
          body = (if t \<noteq> [] \<and> (hd t = CHR ''-'' \<or> hd t = CHR ''+'') then tl t else t);
          n = foldl (\<lambda>a c. 10 * a + digit_val c) 0 (filter is_digit body)
      in if digits_ok body then Some (if neg then - n else n) else None)"

function str_of_nat :: "nat \<Rightarrow> string" where
  "str_of_nat n = (if n < 10 then [char_of (48 + n)]
                   else str_of_nat (n div 10) @ [char_of (48 + n mod 10)])"
  by pat_completeness auto
termination
  by (relation "measure id") auto

definition str_of_int :: "int \<Rightarrow> string" where
  "str_of_int i = (if i < 0 then CHR ''-'' # str_of_nat (nat (- i)) else str_of_nat (nat i))"

text \<open>\<^verbatim>\<open>str(v)\<close>, \<^verbatim>\<open>float(v)\<close> and \<^verbatim>\<open>pd.notna(v)\<close> on a scalar.\<close>

fun py_str :: "'n py \<Rightarrow> 'n pyval \<Rightarrow> string" where
  "py_str py PNone = ''None''"
| "py_str py (PStr s) = s"
| "py_str py (PFloat x) = str_of_float py x"
| "py_str py (PInt i) = str_of_int i"
| "py_str py (PBool b) = (if b then ''True'' else ''False'')"

fun py_float :: "'n py \<Rightarrow> 'n pyval \<Rightarrow> error + 'n" where
  "py_float py PNone = Inl TypeError"
| "py_float py (PStr s) = (case float_of_str py s of None \<Rightarrow> Inl ValueError | Some x \<Rightarrow> Inr x)"
| "py_float py (PFloat x) = Inr x"
| "py_float py (PInt i) = Inr (float_of_int py i)"
| "py_float py (PBool b) = Inr (float_of_int py (if b then 1 else 0))"

fun pd_notna :: "'n py \<Rightarrow> 'n pyval \<Rightarrow> bool" where
  "pd_notna py PNone = False"
| "pd_notna py (PFloat x) = (\<not> isnan py x)"
| "pd_notna py v = True"

section \<open>slugify\<close>

text \<open>
  \<^verbatim>\<open>s = (s or "").strip().lower(); s = re.sub(r"[^a-z0-9]+", "-", s);
  return s.strip("-") or "unknown"\<close>
\<close>

definition slug_char :: "char \<Rightarrow> bool" where
  "slug_char c \<longleftrightarrow> (let n = (of_char c :: nat) in
     (97 \<le> n \<and> n \<le> 122) \<or> (48 \<le> n \<and> n \<le> 57))"

text \<open>\<^verbatim>\<open>re.sub(r"[^a-z0-9]+", "-", s)\<close>: every maximal run of other characters becomes one hyphen.\<close>

function re_sub :: "string \<Rightarrow> string" where
  "re_sub [] = []"
| "re_sub (c # cs) = (if slug_char c then c # re_sub cs
     else CHR ''-'' # re_sub (dropWhile (\<lambda>x. \<not> slug_char x) cs))"
  by pat_completeness auto
termination
  by (relation "measure length") (auto simp: length_dropWhile_le less_Suc_eq_le)

definition slugify :: "string \<Rightarrow> string" where
  "slugify s = (let s1 = map lower_char (py_strip s);
                    s2 = re_sub s1;
                    s3 = strip_by (\<lambda>c. c = CHR ''-'') s2
                in if s3 = [] then ''unknown'' else s3)"

section \<open>parse_note_intensities\<close>

text \<open>\<^verbatim>\<open>s.split(d)\<close> and \<^verbatim>\<open>s.split(d, 1)\<close> for a one-character separator.\<close>

fun split_on :: "char \<Rightarrow> string \<Rightarrow> string list" where
  "split_on d [] = [[]]"
| "split_on d (c # cs) =
     (if c = d then [] # split_on d cs
      else (case split_on d cs of [] \<Rightarrow> [[c]] | x # xs \<Rightarrow> (c # x) # xs))"

definition split_first :: "char \<Rightarrow> string \<Rightarrow> string list" where
  "split_first d s =
     (case dropWhile (\<lambda>c. c \<noteq> d) s of
        [] \<Rightarrow> [s]
      | _ # rest \<Rightarrow> [takeWhile (\<lambda>c. c \<noteq> d) s, rest])"

text \<open>
  The loop over \<^verbatim>\<open>parts\<close>, with the dictionary \<^verbatim>\<open>out\<close> as an association list in
  insertion order. The tuple assignment \<^verbatim>\<open>note, intensity = p.split(":", 1)\<close> raises
  \<^verbatim>\<open>ValueError\<close> unless the list has two elements; the \<^verbatim>\<open>ValueError\<close> of \<^verbatim>\<open>int\<close> is caught.
\<close>

fun parse_parts :: "string list \<Rightarrow> (string \<times> int) list \<Rightarrow> error + (string \<times> int) list" where
  "parse_parts [] out = Inr out"
| "parse_parts (p # ps) out =
     (if CHR '':'' \<notin> set p then parse_parts ps out
      else (case split_first (CHR '':'') p of
              [note, intensity] \<Rightarrow>
                (case int_of_str (py_strip intensity) of
                   None \<Rightarrow> parse_parts ps out
                 | Some intensity_i \<Rightarrow>
                     (if py_strip note \<noteq> []
                      then parse_parts ps (AList.update (py_strip note) intensity_i out)
                      else parse_parts ps out))
            | _ \<Rightarrow> Inl ValueError))"

definition parse_note_intensities :: "'n pyval \<Rightarrow> error + (string \<times> int) list" where
  "parse_note_intensities v =
     (case v of
        PStr s \<Rightarrow>
          (if py_strip s = [] then Inr []
           else parse_parts
                  (map py_strip (filter (\<lambda>p. py_strip p \<noteq> []) (split_on (CHR '';'') s))) [])
      | _ \<Rightarrow> Inr [])"

section \<open>The graph, ensure_node and add_edge\<close>

text \<open>
  A \<^verbatim>\<open>networkx.MultiDiGraph\<close>: the attribute dictionary of every node, and the attribute
  dictionary of every edge under its key \<open>(u, v, key)\<close>. Keyword arguments \<^verbatim>\<open>**props\<close> are a
  list of pairs in the order given.
\<close>

type_synonym 'n attrs = "string \<rightharpoonup> 'n pyval"

type_synonym 'n kwargs = "(string \<times> 'n pyval) list"

record 'n graph =
  nodes :: "string \<rightharpoonup> 'n attrs"
  edges :: "(string \<times> string \<times> string) \<rightharpoonup> 'n attrs"

definition empty_graph :: "'n graph" where
  "empty_graph = \<lparr>nodes = Map.empty, edges = Map.empty\<rparr>"

text \<open>\<^verbatim>\<open>d.update(kw)\<close>.\<close>

definition dict_update :: "'n attrs \<Rightarrow> 'n kwargs \<Rightarrow> 'n attrs" where
  "dict_update d kw = foldl (\<lambda>m (k, v). m(k \<mapsto> v)) d kw"

text \<open>One turn of the merge loop of \<^verbatim>\<open>ensure_node\<close> on the attributes of the node.\<close>

definition merge_prop :: "'n attrs \<Rightarrow> string \<times> 'n pyval \<Rightarrow> 'n attrs" where
  "merge_prop a kv =
     (let k = fst kv; v = snd kv in
      if v \<noteq> PNone \<and> v \<noteq> PStr [] \<and> (a k = None \<or> a k = Some PNone \<or> a k = Some (PStr []))
      then a(k \<mapsto> v) else a)"

text \<open>
  A keyword in \<^verbatim>\<open>**props\<close> that names a parameter of the function, or that the call to
  networkx passes by name already, is a \<^verbatim>\<open>TypeError\<close> of the call.
\<close>

definition has_key :: "string list \<Rightarrow> 'n kwargs \<Rightarrow> bool" where
  "has_key ks props = list_ex (\<lambda>k. k \<in> set ks) (map fst props)"

definition ensure_node ::
  "'n graph \<Rightarrow> string \<Rightarrow> string \<Rightarrow> string \<Rightarrow> 'n kwargs \<Rightarrow> error + 'n graph" where
  "ensure_node G node_id label node_type props =
     (if has_key [''G'', ''node_id'', ''label'', ''node_type''] props then Inl TypeError
      else (case nodes G node_id of
              None \<Rightarrow>
                (if has_key [''type'', ''node_for_adding''] props then Inl TypeError
                 else Inr (G\<lparr>nodes := (nodes G)(node_id \<mapsto>
                        dict_update Map.empty
                          ((''label'', PStr label) # (''type'', PStr node_type) # props))\<rparr>))
            | Some a \<Rightarrow> Inr (G\<lparr>nodes := (nodes G)(node_id \<mapsto> foldl merge_prop a props)\<rparr>)))"

text \<open>
  \<^verbatim>\<open>MultiDiGraph.add_edge(u, v, key, **attr)\<close>: both end nodes are created with no
  attributes when they are not in the graph; the attribute dictionary of the edge under
  \<open>(u, v, key)\<close>, empty when the edge is new, is updated with \<open>attr\<close>.
\<close>

definition nx_add_edge ::
  "'n graph \<Rightarrow> string \<Rightarrow> string \<Rightarrow> string \<Rightarrow> 'n kwargs \<Rightarrow> 'n graph" where
  "nx_add_edge G u v key attr =
     (let ns1 = (case nodes G u of None \<Rightarrow> (nodes G)(u \<mapsto> Map.empty) | Some _ \<Rightarrow> nodes G);
          ns2 = (case ns1 v of None \<Rightarrow> ns1(v \<mapsto> Map.empty) | Some _ \<Rightarrow> ns1);
          datadict = (case edges G (u, v, key) of None \<Rightarrow> Map.empty | Some d \<Rightarrow> d)
      in G\<lparr>nodes := ns2, edges := (edges G)((u, v, key) \<mapsto> dict_update datadict attr)\<rparr>)"

definition add_edge ::
  "'n graph \<Rightarrow> string \<Rightarrow> string \<Rightarrow> string \<Rightarrow> 'n kwargs \<Rightarrow> error + 'n graph" where
  "add_edge G src rel dst props =
     (if has_key [''G'', ''src'', ''rel'', ''dst''] props then Inl TypeError
      else if has_key [''key'', ''type'', ''u_for_edge'', ''v_for_edge''] props then Inl TypeError
      else Inr (nx_add_edge G src dst rel ((''type'', PStr rel) # props)))"

section \<open>build_graph_from_brews\<close>

text \<open>
  The table handed over by \<^verbatim>\<open>pd.read_csv\<close>: its column names and its rows. A row is the
  \<^verbatim>\<open>Series\<close> that \<^verbatim>\<open>iterrows\<close> yields, a dictionary from column name to cell; in a table
  every row has an entry for every column, an empty cell holding NaN.
  \<open>row_get r k d\<close> is \<^verbatim>\<open>r.get(k, d)\<close>.
\<close>

type_synonym 'n row = "string \<rightharpoonup> 'n pyval"

record 'n dataframe =
  columns :: "string list"
  rows :: "'n row list"

definition core_columns :: "string list" where
  "core_columns =
     [''brew_id'', ''barista'', ''brew_date'', ''roaster'', ''coffee_name'', ''roast_level'',
      ''roast_date'', ''brew_method'', ''brewer_brand'', ''brewer_model'', ''dose_g'',
      ''total_brew_time_sec'', ''notes_intensities'', ''sweetness_0_10'', ''acidity_0_10'',
      ''bitterness_0_10'', ''body_0_10'', ''overall_0_10'', ''grinder'', ''grind_setting'',
      ''filter_material'', ''notes_overall'']"

definition required :: "string list" where
  "required =
     [''brew_id'', ''barista'', ''brew_date'', ''roaster'', ''coffee_name'', ''roast_level'',
      ''brew_method'', ''brewer_brand'', ''brewer_model'', ''dose_g'', ''total_brew_time_sec'',
      ''notes_intensities'', ''sweetness_0_10'', ''acidity_0_10'', ''bitterness_0_10'',
      ''body_0_10'', ''overall_0_10'']"

text \<open>The fields read with \<^verbatim>\<open>float\<close>: dose, brew time and the five sensory scores.\<close>

definition numeric_fields :: "string list" where
  "numeric_fields =
     [''dose_g'', ''total_brew_time_sec'', ''sweetness_0_10'', ''acidity_0_10'',
      ''bitterness_0_10'', ''body_0_10'', ''overall_0_10'']"

text \<open>The fields read with \<^verbatim>\<open>str\<close> and the default \<^verbatim>\<open>"unknown"\<close>.\<close>

definition unknown_fields :: "string list" where
  "unknown_fields =
     [''brew_id'', ''barista'', ''brew_date'', ''roaster'', ''coffee_name'', ''roast_level'',
      ''grinder'', ''grind_setting'', ''brew_method'', ''brewer_brand'', ''brewer_model'']"

definition row_get :: "'n row \<Rightarrow> string \<Rightarrow> 'n pyval \<Rightarrow> 'n pyval" where
  "row_get r k d = (case r k of None \<Rightarrow> d | Some v \<Rightarrow> v)"

text \<open>
  The three ways a field is read: \<^verbatim>\<open>str(r.get(k, d))\<close>, \<^verbatim>\<open>float(r.get(k, 0.0))\<close> and
  \<^verbatim>\<open>str(r.get(k, "")) if pd.notna(r.get(k, None)) else ""\<close>.
\<close>

definition str_field :: "'n py \<Rightarrow> 'n row \<Rightarrow> string \<Rightarrow> string \<Rightarrow> string" where
  "str_field py r k d = py_str py (row_get r k (PStr d))"

definition float_field :: "'n py \<Rightarrow> 'n row \<Rightarrow> string \<Rightarrow> error + 'n" where
  "float_field py r k = py_float py (row_get r k (PFloat (zero_float py)))"

definition opt_str_field :: "'n py \<Rightarrow> 'n row \<Rightarrow> string \<Rightarrow> string" where
  "opt_str_field py r k =
     (if pd_notna py (row_get r k PNone) then py_str py (row_get r k (PStr [])) else [])"

record 'n fields =
  brew_id :: string
  barista :: string
  brew_date :: string
  dose_g :: 'n
  total_brew_time_sec :: 'n
  roaster :: string
  coffee_name :: string
  roast_date :: string
  roast_level :: string
  grinder :: string
  grind_setting :: string
  brew_method :: string
  brewer_brand :: string
  brewer_model :: string
  filter_material :: string
  notes_overall :: string
  sweetness_0_10 :: 'n
  acidity_0_10 :: 'n
  bitterness_0_10 :: 'n
  body_0_10 :: 'n
  overall_0_10 :: 'n
  note_map :: "(string \<times> int) list"

text \<open>
  Data cleaning and preparation: the fields of one row, in the order the source reads
  them. The first \<^verbatim>\<open>float\<close> that raises ends the row, and with it the build.
\<close>

definition read_row :: "'n py \<Rightarrow> 'n row \<Rightarrow> error + 'n fields" where
  "read_row py r =
     ebind (float_field py r ''dose_g'') (\<lambda>dose.
     ebind (float_field py r ''total_brew_time_sec'') (\<lambda>total.
     ebind (float_field py r ''sweetness_0_10'') (\<lambda>sweetness.
     ebind (float_field py r ''acidity_0_10'') (\<lambda>acidity.
     ebind (float_field py r ''bitterness_0_10'') (\<lambda>bitterness.
     ebind (float_field py r ''body_0_10'') (\<lambda>body.
     ebind (float_field py r ''overall_0_10'') (\<lambda>overall.
     ebind (parse_note_intensities (PStr (str_field py r ''notes_intensities'' []) :: 'n pyval))
       (\<lambda>notes.
     Inr \<lparr>brew_id = str_field py r ''brew_id'' ''unknown'',
          barista = str_field py r ''barista'' ''unknown'',
          brew_date = str_field py r ''brew_date'' ''unknown'',
          dose_g = dose,
          total_brew_time_sec = total,
          roaster = str_field py r ''roaster'' ''unknown'',
          coffee_name = str_field py r ''coffee_name'' ''unknown'',
          roast_date = opt_str_field py r ''roast_date'',
          roast_level = str_field py r ''roast_level'' ''unknown'',
          grinder = str_field py r ''grinder'' ''unknown'',
          grind_setting = str_field py r ''grind_setting'' ''unknown'',
          brew_method = str_field py r ''brew_method'' ''unknown'',
          brewer_brand = str_field py r ''brewer_brand'' ''unknown'',
          brewer_model = str_field py r ''brewer_model'' ''unknown'',
          filter_material = opt_str_field py r ''filter_material'',
          notes_overall = opt_str_field py r ''notes_overall'',
          sweetness_0_10 = sweetness,
          acidity_0_10 = acidity,
          bitterness_0_10 = bitterness,
          body_0_10 = body,
          overall_0_10 = overall,
          note_map = notes\<rparr>))))))))"

text \<open>Node id generation.\<close>

definition roaster_id :: "'n fields \<Rightarrow> string" where
  "roaster_id f = ''roaster:'' @ slugify (roaster f)"

definition beanlot_id :: "'n fields \<Rightarrow> string" where
  "beanlot_id f = ''bean:'' @ slugify (roaster f) @ '':'' @ slugify (coffee_name f)"

definition roastbatch_id :: "'n fields \<Rightarrow> string" where
  "roastbatch_id f =
     ''roast:'' @ slugify (roaster f) @ '':'' @ slugify (coffee_name f) @ '':''
       @ slugify (roast_level f)"

definition grinder_id :: "'n fields \<Rightarrow> string" where
  "grinder_id f = ''grinder:'' @ slugify (grinder f)"

definition brewer_id :: "'n fields \<Rightarrow> string" where
  "brewer_id f = ''brewer:'' @ slugify (brewer_brand f) @ ''-'' @ slugify (brewer_model f)"

definition brew_session_id :: "'n fields \<Rightarrow> string" where
  "brew_session_id f = ''brew:'' @ slugify (brew_id f)"

definition eval_id :: "'n fields \<Rightarrow> string" where
  "eval_id f = ''eval:'' @ slugify (brew_id f)"

definition note_id :: "string \<Rightarrow> string" where
  "note_id note = ''note:'' @ slugify note"

text \<open>Graph building: nodes.\<close>

fun ensure_notes :: "'n graph \<Rightarrow> (string \<times> int) list \<Rightarrow> error + 'n graph" where
  "ensure_notes G [] = Inr G"
| "ensure_notes G (ni # rest) =
     ebind (ensure_node G (note_id (fst ni)) (fst ni) ''FlavorNote'' [])
       (\<lambda>G'. ensure_notes G' rest)"

definition add_nodes :: "'n graph \<Rightarrow> 'n fields \<Rightarrow> error + 'n graph" where
  "add_nodes G f =
     ebind (ensure_node G (roaster_id f) (roaster f) ''Roaster'' []) (\<lambda>G1.
     ebind (ensure_node G1 (beanlot_id f) (coffee_name f) ''BeanLot'' []) (\<lambda>G2.
     ebind (ensure_node G2 (roastbatch_id f)
              (coffee_name f @ '' ('' @ roast_level f @ '')'') ''RoastBatch''
              [(''roast_level'', PStr (roast_level f))]) (\<lambda>G3.
     ebind (ensure_node G3 (grinder_id f) (grinder f) ''Grinder'' []) (\<lambda>G4.
     ebind (ensure_node G4 (brewer_id f)
              (py_strip (brewer_brand f @ '' '' @ brewer_model f)) ''Brewer''
              [(''brand'', PStr (brewer_brand f)), (''model'', PStr (brewer_model f)),
               (''filter_material'', PStr (filter_material f))]) (\<lambda>G5.
     ebind (ensure_node G5 (brew_session_id f) (brew_id f) ''BrewSession''
              [(''dose_g'', PFloat (dose_g f)),
               (''total_brew_time_sec'', PFloat (total_brew_time_sec f)),
               (''notes_overall'', PStr (notes_overall f)),
               (''barista'', PStr (barista f)),
               (''brew_date'', PStr (brew_date f))]) (\<lambda>G6.
     ebind (ensure_node G6 (eval_id f) (''Eval '' @ brew_id f) ''SensoryEvaluation''
              [(''sweetness_0_10'', PFloat (sweetness_0_10 f)),
               (''acidity_0_10'', PFloat (acidity_0_10 f)),
               (''bitterness_0_10'', PFloat (bitterness_0_10 f)),
               (''body_0_10'', PFloat (body_0_10 f)),
               (''overall_0_10'', PFloat (overall_0_10 f))]) (\<lambda>G7.
     ensure_notes G7 (note_map f))))))))"

text \<open>
  The dynamic parameters of the \<^verbatim>\<open>BREWED_WITH\<close> edge: one turn of the loop over
  \<^verbatim>\<open>df.columns\<close>, and the loop. \<^verbatim>\<open>float\<close> raises nothing but \<^verbatim>\<open>ValueError\<close> and
  \<^verbatim>\<open>TypeError\<close> here, and the \<^verbatim>\<open>except\<close> clause catches both.
\<close>

definition dyn_param :: "'n py \<Rightarrow> 'n row \<Rightarrow> 'n kwargs \<Rightarrow> string \<Rightarrow> 'n kwargs" where
  "dyn_param py r mp col_name =
     (if col_name \<notin> set core_columns then
        (let v = row_get r col_name PNone in
         if pd_notna py v \<and> v \<noteq> PStr [] then
           (case py_float py v of
              Inr x \<Rightarrow> AList.update col_name (PFloat x) mp
            | Inl e \<Rightarrow> AList.update col_name (PStr (py_str py v)) mp)
         else mp)
      else mp)"

definition method_params :: "'n py \<Rightarrow> string list \<Rightarrow> 'n row \<Rightarrow> string \<Rightarrow> 'n kwargs" where
  "method_params py cols r method =
     foldl (dyn_param py r) [(''brew_method'', PStr method)] cols"

text \<open>Graph building: edges.\<close>

fun add_note_edges :: "'n graph \<Rightarrow> string \<Rightarrow> (string \<times> int) list \<Rightarrow> error + 'n graph" where
  "add_note_edges G ev [] = Inr G"
| "add_note_edges G ev (ni # rest) =
     ebind (add_edge G ev ''HAS_NOTE'' (note_id (fst ni)) [(''intensity'', PInt (snd ni))])
       (\<lambda>G'. add_note_edges G' ev rest)"

definition add_edges :: "'n graph \<Rightarrow> 'n fields \<Rightarrow> 'n kwargs \<Rightarrow> error + 'n graph" where
  "add_edges G f mp =
     ebind (add_edge G (roaster_id f) ''PRODUCES'' (beanlot_id f) []) (\<lambda>G1.
     ebind (add_edge G1 (beanlot_id f) ''ROASTED_AS'' (roastbatch_id f)
              [(''roast_date'', PStr (roast_date f))]) (\<lambda>G2.
     ebind (add_edge G2 (brew_session_id f) ''USES_GRINDER'' (grinder_id f)
              [(''grind_setting'', PStr (grind_setting f))]) (\<lambda>G3.
     ebind (add_edge G3 (brew_session_id f) ''BREWED_WITH'' (brewer_id f) mp) (\<lambda>G4.
     ebind (add_edge G4 (brew_session_id f) ''USES_ROAST'' (roastbatch_id f) []) (\<lambda>G5.
     ebind (add_edge G5 (brew_session_id f) ''EVALUATED_AS'' (eval_id f) []) (\<lambda>G6.
     add_note_edges G6 (eval_id f) (note_map f)))))))"

text \<open>The body of the loop over the rows, the loop, and the function.\<close>

definition process_row :: "'n py \<Rightarrow> string list \<Rightarrow> 'n graph \<Rightarrow> 'n row \<Rightarrow> error + 'n graph" where
  "process_row py cols G r =
     ebind (read_row py r) (\<lambda>f.
     ebind (add_nodes G f) (\<lambda>G1.
     add_edges G1 f (method_params py cols r (brew_method f))))"

fun process_rows :: "'n py \<Rightarrow> string list \<Rightarrow> 'n graph \<Rightarrow> 'n row list \<Rightarrow> error + 'n graph" where
  "process_rows py cols G [] = Inr G"
| "process_rows py cols G (r # rs) =
     ebind (process_row py cols G r) (\<lambda>G'. process_rows py cols G' rs)"

definition build_graph_from_brews :: "'n py \<Rightarrow> 'n dataframe \<Rightarrow> error + 'n graph" where
  "build_graph_from_brews py df =
     (let missing = filter (\<lambda>c. c \<notin> set (columns df)) required in
      if missing \<noteq> [] then Inl (MissingRequiredColumns missing)
      else process_rows py (columns df) empty_graph (rows df))"

section \<open>A concrete interpreter for the examples\<close>

text \<open>
  For evaluating the functions on concrete tables, floats are taken to be the integers
  and NaN (\<open>None\<close>). \<open>example_py\<close> agrees with CPython on the inputs used below: integer
  numerals, integer-valued floats, NaN and text that is no number.
\<close>

definition example_py :: "(int option) py" where
  "example_py =
     \<lparr>float_of_str = (\<lambda>s. map_option Some (int_of_str s)),
      float_of_int = Some,
      str_of_float = (\<lambda>x. case x of None \<Rightarrow> ''nan'' | Some i \<Rightarrow> str_of_int i @ ''.0''),
      isnan = (\<lambda>x. x = None),
      zero_float = Some 0\<rparr>"

text \<open>A row with every required column, brewed by \<open>b\<close> on the brewer \<open>m\<close>.\<close>

definition example_row :: "string \<Rightarrow> string \<Rightarrow> (int option) row" where
  "example_row b m = map_of
     [(''brew_id'', PStr b), (''barista'', PStr ''ann''), (''brew_date'', PStr ''2024-01-05''),
      (''roaster'', PStr ''Blue Bottle''), (''coffee_name'', PStr ''Kochere''),
      (''roast_level'', PStr ''light''), (''brew_method'', PStr ''pour over''),
      (''brewer_brand'', PStr ''Hario''), (''brewer_model'', PStr m),
      (''dose_g'', PInt 15), (''total_brew_time_sec'', PInt 180),
      (''notes_intensities'', PStr ''floral:4''),
      (''sweetness_0_10'', PInt 7), (''acidity_0_10'', PInt 6), (''bitterness_0_10'', PInt 2),
      (''body_0_10'', PInt 5), (''overall_0_10'', PInt 8)]"

section \<open>Auxiliary notions for the proofs\<close>

text \<open>
  The fixed points of \<open>re_sub\<close>: every character outside \<^verbatim>\<open>[a-z0-9]\<close> is a hyphen, and it
  is followed by a character of the class or by nothing.
\<close>

fun normal :: "string \<Rightarrow> bool" where
  "normal [] = True"
| "normal (c # cs) = (if slug_char c then normal cs
     else c = CHR ''-'' \<and> (case cs of [] \<Rightarrow> True | d # _ \<Rightarrow> slug_char d) \<and> normal cs)"

text \<open>
  What a step of the build keeps of the nodes: every node stays, with its label, its type
  and every attribute that holds a value other than \<^verbatim>\<open>None\<close> and \<^verbatim>\<open>""\<close>.
\<close>

definition node_stable :: "'n graph \<Rightarrow> 'n graph \<Rightarrow> bool" where
  "node_stable G G' \<longleftrightarrow>
     (\<forall>n a. nodes G n = Some a \<longrightarrow>
        (\<exists>a'. nodes G' n = Some a' \<and> a' ''label'' = a ''label'' \<and> a' ''type'' = a ''type'' \<and>
           (\<forall>k x. a k = Some x \<longrightarrow> x \<noteq> PNone \<longrightarrow> x \<noteq> PStr [] \<longrightarrow> a' k = Some x)))"

text \<open>Reading one attribute of a node or of an edge in the result of a build.\<close>

definition node_attr :: "error + 'n graph \<Rightarrow> string \<Rightarrow> string \<Rightarrow> 'n pyval option" where
  "node_attr res n k =
     (case res of Inl e \<Rightarrow> None
      | Inr G \<Rightarrow> (case nodes G n of None \<Rightarrow> None | Some a \<Rightarrow> a k))"

definition edge_attr ::
  "error + 'n graph \<Rightarrow> string \<times> string \<times> string \<Rightarrow> string \<Rightarrow> 'n pyval option" where
  "edge_attr res e k =
     (case res of Inl err \<Rightarrow> None
      | Inr G \<Rightarrow> (case edges G e of None \<Rightarrow> None | Some a \<Rightarrow> a k))"

text \<open>Reading one field of the result of \<open>read_row\<close>.\<close>

definition field_of :: "('n fields \<Rightarrow> 'a) \<Rightarrow> error + 'n fields \<Rightarrow> 'a option" where
  "field_of sel res = (case res of Inl e \<Rightarrow> None | Inr f \<Rightarrow> Some (sel f))"

text \<open>
  A segment of the notes cell that the specification calls malformed: no \<^verbatim>\<open>:\<close>
  separator, an empty key after trimming, or a value that is no integer.
\<close>

definition malformed :: "string \<Rightarrow> bool" where
  "malformed p \<longleftrightarrow>
     CHR '':'' \<notin> set p \<or>
     py_strip (takeWhile (\<lambda>c. c \<noteq> CHR '':'') p) = [] \<or>
     int_of_str (py_strip (tl (dropWhile (\<lambda>c. c \<noteq> CHR '':'') p))) = None"

text \<open>
  The value stored for a dynamic cell: \<^verbatim>\<open>float(value)\<close>, or \<^verbatim>\<open>str(value)\<close> when \<^verbatim>\<open>float\<close>
  raises.
\<close>

definition coerced :: "'n py \<Rightarrow> 'n pyval \<Rightarrow> 'n pyval" where
  "coerced py v = (case py_float py v of Inr x \<Rightarrow> PFloat x | Inl e \<Rightarrow> PStr (py_str py v))"

text \<open>The keywords that \<open>add_edge\<close> cannot take in \<^verbatim>\<open>**props\<close>.\<close>

definition reserved_edge_keys :: "string list" where
  "reserved_edge_keys =
     [''G'', ''src'', ''rel'', ''dst'', ''key'', ''type'', ''u_for_edge'', ''v_for_edge'']"

text \<open>
  Example tables. \<open>two_brews\<close> has the dynamic column \<^verbatim>\<open>water_temp_c\<close>, filled in the first
  row and empty in the second; both rows are the same brew on the same brewer.
  \<open>kettle_table\<close> has the dynamic column \<^verbatim>\<open>kettle\<close> with a text value in spaces.
\<close>

definition two_brews :: "(int option) dataframe" where
  "two_brews =
     \<lparr>columns = required @ [''water_temp_c''],
      rows = [(example_row ''b1'' ''V60'')(''water_temp_c'' \<mapsto> PFloat (Some 93)),
              (example_row ''b1'' ''V60'')(''water_temp_c'' \<mapsto> PFloat None)]\<rparr>"

definition kettle_table :: "(int option) dataframe" where
  "kettle_table =
     \<lparr>columns = required @ [''kettle''],
      rows = [(example_row ''b1'' ''V60'')(''kettle'' \<mapsto> PStr '' gooseneck '')]\<rparr>"

text \<open>
  A graph that holds one brewer, with a paper filter, and a row that names the same
  brewer in capitals, with a metal filter.
\<close>

definition one_brewer :: "(int option) graph" where
  "one_brewer =
     \<lparr>nodes = [''brewer:hario-v60'' \<mapsto>
                 [''label'' \<mapsto> PStr ''Hario V60'', ''type'' \<mapsto> PStr ''Brewer'',
                  ''brand'' \<mapsto> PStr ''Hario'', ''model'' \<mapsto> PStr ''V60'',
                  ''filter_material'' \<mapsto> PStr ''paper'']],
      edges = Map.empty\<rparr>"

definition metal_row :: "(int option) row" where
  "metal_row =
     (example_row ''b2'' ''V60'')
       (''brewer_brand'' \<mapsto> PStr ''HARIO'', ''filter_material'' \<mapsto> PStr ''metal'')"

section \<open>slugify is idempotent\<close>

lemma slug_char_not_hyphen: "slug_char c \<Longrightarrow> c \<noteq> CHR ''-''"
proof
  assume "slug_char c" and "c = CHR ''-''"
  then have "slug_char (CHR ''-'')" by simp
  then show False by (simp add: slug_char_def)
qed

lemma slug_char_not_space: "slug_char c \<Longrightarrow> \<not> isspace c"
  unfolding slug_char_def isspace_def Let_def by arith

lemma slug_char_lower:
  assumes "slug_char c"
  shows "lower_char c = c"
proof -
  let ?n = "of_char c :: nat"
  have "\<not> ((65 \<le> ?n \<and> ?n \<le> 90) \<or> (192 \<le> ?n \<and> ?n \<le> 222 \<and> ?n \<noteq> 215))"
    using assms unfolding slug_char_def Let_def by arith
  then show ?thesis unfolding lower_char_def Let_def by (simp only: if_False)
qed

lemma lower_hyphen: "lower_char (CHR ''-'') = CHR ''-''"
  by (simp add: lower_char_def)

lemma re_sub_hd: "s \<noteq> [] \<Longrightarrow> slug_char (hd s) \<Longrightarrow> re_sub s \<noteq> [] \<and> hd (re_sub s) = hd s"
  by (cases s) auto

lemma dropWhile_inv_cases:
  "dropWhile (\<lambda>x. \<not> slug_char x) cs = [] \<or>
   (dropWhile (\<lambda>x. \<not> slug_char x) cs \<noteq> [] \<and> slug_char (hd (dropWhile (\<lambda>x. \<not> slug_char x) cs)))"
  using hd_dropWhile [of "\<lambda>x. \<not> slug_char x" cs] by auto

lemma normal_re_sub: "normal (re_sub s)"
proof (induction s rule: re_sub.induct)
  case 1
  show ?case by simp
next
  case (2 c cs)
  show ?case
  proof (cases "slug_char c")
    case True
    with 2 show ?thesis by simp
  next
    case False
    let ?d = "dropWhile (\<lambda>x. \<not> slug_char x) cs"
    have n: "normal (re_sub ?d)" using 2 False by simp
    have "case re_sub ?d of [] \<Rightarrow> True | d # _ \<Rightarrow> slug_char d"
    proof (cases "?d = []")
      case True
      show ?thesis unfolding True by simp
    next
      case False
      with dropWhile_inv_cases [of cs] have "slug_char (hd ?d)" by blast
      with False re_sub_hd [of ?d] show ?thesis by (auto split: list.splits)
    qed
    with n False show ?thesis by simp
  qed
qed

lemma normal_Cons_slug: "slug_char c \<Longrightarrow> normal (c # cs) = normal cs"
  by simp

lemma normal_Cons_other:
  "\<not> slug_char c \<Longrightarrow> normal (c # cs) =
     (c = CHR ''-'' \<and> (case cs of [] \<Rightarrow> True | d # _ \<Rightarrow> slug_char d) \<and> normal cs)"
  by simp

lemma normal_Cons_otherD:
  assumes "\<not> slug_char c" and "normal (c # cs)"
  shows "c = CHR ''-''" and "case cs of [] \<Rightarrow> True | d # _ \<Rightarrow> slug_char d" and "normal cs"
  using assms by simp_all

lemma re_sub_normal: "normal t \<Longrightarrow> re_sub t = t"
proof (induction t)
  case Nil
  show ?case by simp
next
  case (Cons c cs)
  show ?case
  proof (cases "slug_char c")
    case True
    with Cons show ?thesis by (simp only: normal_Cons_slug re_sub.simps if_True)
  next
    case False
    note d = normal_Cons_otherD [OF False Cons.prems]
    note c = d(1) and h = d(2) and n = d(3)
    from h have "dropWhile (\<lambda>x. \<not> slug_char x) cs = cs"
      by (cases cs) simp_all
    with Cons.IH [OF n] False c show ?thesis
      by (simp only: re_sub.simps if_False)
  qed
qed

lemma normal_tl: "normal (c # cs) \<Longrightarrow> normal cs"
  by (cases "slug_char c") simp_all

lemma normal_suffix: "normal (xs @ ys) \<Longrightarrow> normal ys"
proof (induction xs)
  case Nil
  then show ?case by simp
next
  case (Cons c cs)
  from Cons.prems have "normal (c # (cs @ ys))" by (simp only: append_Cons)
  then have "normal (cs @ ys)" by (rule normal_tl)
  then show ?case by (rule Cons.IH)
qed

lemma normal_prefix: "normal (xs @ ys) \<Longrightarrow> normal xs"
proof (induction xs)
  case Nil
  show ?case by simp
next
  case (Cons c cs)
  from Cons.prems have p: "normal (c # (cs @ ys))" by (simp only: append_Cons)
  then have "normal (cs @ ys)" by (rule normal_tl)
  then have n: "normal cs" by (rule Cons.IH)
  show ?case
  proof (cases "slug_char c")
    case True
    with n show ?thesis by (simp only: normal_Cons_slug)
  next
    case False
    note d = normal_Cons_otherD [OF False p]
    note c = d(1) and h = d(2)
    from h have "case cs of [] \<Rightarrow> True | d # _ \<Rightarrow> slug_char d"
      by (cases cs) simp_all
    with False c n show ?thesis by (simp only: normal_Cons_other simp_thms)
  qed
qed

lemma normal_set: "normal t \<Longrightarrow> c \<in> set t \<Longrightarrow> slug_char c \<or> c = CHR ''-''"
proof (induction t)
  case Nil
  then show ?case by simp
next
  case (Cons a t)
  from Cons.prems(1) have n: "normal t" by (rule normal_tl)
  show ?case
  proof (cases "c = a")
    case True
    show ?thesis
    proof (cases "slug_char a")
      case True
      with \<open>c = a\<close> show ?thesis by simp
    next
      case False
      then have "a = CHR ''-''" using Cons.prems(1) by (rule normal_Cons_otherD)
      with \<open>c = a\<close> show ?thesis by simp
    qed
  next
    case False
    with Cons.prems(2) have "c \<in> set t" by simp
    with n show ?thesis by (rule Cons.IH)
  qed
qed

lemma strip_by_split: "\<exists>xs ys. t = xs @ strip_by P t @ ys"
proof -
  let ?d = "dropWhile P t"
  have a: "t = takeWhile P t @ ?d" by simp
  have "rev (takeWhile P (rev ?d) @ dropWhile P (rev ?d)) = rev (rev ?d)"
    by (simp only: takeWhile_dropWhile_id)
  then have b: "?d = strip_by P t @ rev (takeWhile P (rev ?d))"
    by (simp only: rev_append rev_rev_ident strip_by_def)
  from a b have "t = takeWhile P t @ strip_by P t @ rev (takeWhile P (rev ?d))" by simp
  then show ?thesis by blast
qed

lemma normal_strip_by: "normal t \<Longrightarrow> normal (strip_by P t)"
proof -
  assume n: "normal t"
  obtain xs ys where "t = xs @ strip_by P t @ ys" using strip_by_split by blast
  with n have "normal (xs @ strip_by P t @ ys)" by simp
  then have "normal (strip_by P t @ ys)" by (rule normal_suffix)
  then show ?thesis by (rule normal_prefix)
qed

lemma last_dropWhile: "dropWhile P xs \<noteq> [] \<Longrightarrow> last (dropWhile P xs) = last xs"
proof -
  assume ne: "dropWhile P xs \<noteq> []"
  have "last (takeWhile P xs @ dropWhile P xs) = last (dropWhile P xs)"
    using ne by (rule last_appendR)
  then show ?thesis by (simp only: takeWhile_dropWhile_id)
qed

lemma strip_by_ends:
  assumes "strip_by P t \<noteq> []"
  shows "\<not> P (hd (strip_by P t))" and "\<not> P (last (strip_by P t))"
proof -
  let ?d = "dropWhile P t"
  let ?e = "dropWhile P (rev ?d)"
  from assms have e: "?e \<noteq> []" unfolding strip_by_def by (simp only: rev_is_Nil_conv not_False_eq_True)
  have sb: "strip_by P t = rev ?e" by (simp only: strip_by_def)
  have "\<not> P (hd ?e)" using e by (rule hd_dropWhile)
  moreover have "last (rev ?e) = hd ?e" using e by (simp only: last_rev)
  ultimately show "\<not> P (last (strip_by P t))" unfolding sb by simp
  have dne: "?d \<noteq> []"
  proof
    assume z: "?d = []"
    have "?e = []" unfolding z by simp
    with e show False by contradiction
  qed
  then have h: "\<not> P (hd ?d)" by (rule hd_dropWhile)
  have "hd (rev ?e) = last ?e" using e by (simp only: hd_rev)
  also have "\<dots> = last (rev ?d)" using e by (rule last_dropWhile)
  also have "\<dots> = hd ?d" using dne by (simp only: last_rev)
  finally show "\<not> P (hd (strip_by P t))" using h unfolding sb by simp
qed

lemma strip_by_id: "u \<noteq> [] \<Longrightarrow> \<not> P (hd u) \<Longrightarrow> \<not> P (last u) \<Longrightarrow> strip_by P u = u"
proof -
  assume ne: "u \<noteq> []" and h: "\<not> P (hd u)" and l: "\<not> P (last u)"
  from ne h have a: "dropWhile P u = u" by (cases u) auto
  from ne l have "dropWhile P (rev u) = rev u" by (cases u rule: rev_cases) auto
  with a show ?thesis by (simp add: strip_by_def)
qed

lemma slug_fixed:
  assumes n: "normal u" and ne: "u \<noteq> []"
    and h: "hd u \<noteq> CHR ''-''" and l: "last u \<noteq> CHR ''-''"
  shows "slugify u = u"
proof -
  from ne have "hd u \<in> set u" "last u \<in> set u" by auto
  with n h l have sh: "slug_char (hd u)" and sl: "slug_char (last u)"
    using normal_set by blast+
  have 1: "py_strip u = u"
    unfolding py_strip_def using ne sh sl by (intro strip_by_id) (auto dest: slug_char_not_space)
  have 2: "map lower_char u = u"
  proof (rule map_idI)
    fix x assume "x \<in> set u"
    with n have "slug_char x \<or> x = CHR ''-''" by (rule normal_set)
    then show "lower_char x = x" using slug_char_lower lower_hyphen by blast
  qed
  have 3: "re_sub u = u" using n by (rule re_sub_normal)
  have 4: "strip_by (\<lambda>c. c = CHR ''-'') u = u"
    using ne h l by (intro strip_by_id) auto
  show ?thesis using ne by (simp add: slugify_def 1 2 3 4)
qed

lemma slugify_unknown: "slugify ''unknown'' = ''unknown''"
  by code_simp

text \<open>
  C9: the identifier normalizer is idempotent: for every string \<open>s\<close>,
  \<open>slugify (slugify s) = slugify s\<close>.
\<close>

theorem slugify_idempotent: "slugify (slugify s) = slugify s"
proof -
  let ?t = "re_sub (map lower_char (py_strip s))"
  let ?u = "strip_by (\<lambda>c. c = CHR ''-'') ?t"
  show ?thesis
  proof (cases "?u = []")
    case True
    then have "slugify s = ''unknown''" by (simp add: slugify_def)
    then show ?thesis by (simp add: slugify_unknown)
  next
    case False
    then have s: "slugify s = ?u" by (simp add: slugify_def)
    have "normal ?u" by (intro normal_strip_by normal_re_sub)
    moreover have "hd ?u \<noteq> CHR ''-''" "last ?u \<noteq> CHR ''-''"
      using strip_by_ends [OF False] by auto
    ultimately have "slugify ?u = ?u" using False by (intro slug_fixed)
    with s show ?thesis by simp
  qed
qed

section \<open>The structured-field parser\<close>

lemma split_first_colon:
  assumes "CHR '':'' \<in> set p"
  shows "split_first (CHR '':'') p =
     [takeWhile (\<lambda>c. c \<noteq> CHR '':'') p, tl (dropWhile (\<lambda>c. c \<noteq> CHR '':'') p)]"
proof -
  from assms have "dropWhile (\<lambda>c. c \<noteq> CHR '':'') p \<noteq> []" by (simp add: dropWhile_eq_Nil_conv)
  then show ?thesis by (cases "dropWhile (\<lambda>c. c \<noteq> CHR '':'') p") (simp_all add: split_first_def)
qed

lemma parse_parts_malformed: "malformed p \<Longrightarrow> parse_parts (p # ps) out = parse_parts ps out"
  by (cases "CHR '':'' \<in> set p") (auto simp: malformed_def split_first_colon split: option.splits)

lemma parse_parts_well_formed:
  assumes "\<not> malformed p"
  shows "\<exists>i. int_of_str (py_strip (tl (dropWhile (\<lambda>c. c \<noteq> CHR '':'') p))) = Some i \<and>
     parse_parts (p # ps) out =
       parse_parts ps (AList.update (py_strip (takeWhile (\<lambda>c. c \<noteq> CHR '':'') p)) i out)"
proof -
  from assms have c: "CHR '':'' \<in> set p"
    and k: "py_strip (takeWhile (\<lambda>c. c \<noteq> CHR '':'') p) \<noteq> []"
    and "int_of_str (py_strip (tl (dropWhile (\<lambda>c. c \<noteq> CHR '':'') p))) \<noteq> None"
    by (simp_all add: malformed_def)
  then obtain i where i: "int_of_str (py_strip (tl (dropWhile (\<lambda>c. c \<noteq> CHR '':'') p))) = Some i"
    by blast
  with c k show ?thesis by (simp add: split_first_colon)
qed

lemma parse_parts_ok: "\<exists>d. parse_parts ps out = Inr d"
proof (induction ps arbitrary: out)
  case Nil
  show ?case by simp
next
  case (Cons p ps)
  show ?case
  proof (cases "malformed p")
    case True
    with Cons.IH [of out] show ?thesis by (simp only: parse_parts_malformed)
  next
    case False
    then obtain i where "parse_parts (p # ps) out =
       parse_parts ps (AList.update (py_strip (takeWhile (\<lambda>c. c \<noteq> CHR '':'') p)) i out)"
      using parse_parts_well_formed by blast
    with Cons.IH show ?thesis by simp
  qed
qed

lemma parse_note_intensities_ok: "\<exists>d. parse_note_intensities v = Inr d"
  by (cases v) (simp_all add: parse_note_intensities_def parse_parts_ok)

lemma parse_note_intensities_not_str: "\<forall>s. v \<noteq> PStr s \<Longrightarrow> parse_note_intensities v = Inr []"
  by (cases v) (auto simp: parse_note_intensities_def)

lemma parse_note_intensities_blank: "py_strip s = [] \<Longrightarrow> parse_note_intensities (PStr s) = Inr []"
  by (simp add: parse_note_intensities_def)

lemma parse_example:
  "parse_note_intensities (PStr ''chocolate:4;fruit:x;:5;floral:2'') =
     Inr [(''chocolate'', 4), (''floral'', 2)]"
proof -
  have "parse_parts (map py_strip (filter (\<lambda>p. py_strip p \<noteq> [])
          (split_on (CHR '';'') ''chocolate:4;fruit:x;:5;floral:2''))) [] =
        Inr [(''chocolate'', 4), (''floral'', 2)]"
    by code_simp
  moreover have "py_strip ''chocolate:4;fruit:x;:5;floral:2'' \<noteq> []"
    by code_simp
  ultimately show ?thesis by (simp only: parse_note_intensities_def pyval.case if_False)
qed

text \<open>
  C7: for every input value the structured-field parser returns a mapping and never
  raises; a malformed segment (no \<^verbatim>\<open>:\<close>, empty key after trimming, or a value that is no
  integer) is dropped and the remaining segments are parsed as without it; the input
  \<^verbatim>\<open>"chocolate:4;fruit:x;:5;floral:2"\<close> parses to exactly \<^verbatim>\<open>{chocolate: 4, floral: 2}\<close>; an
  input that is no string, and a blank string, give the empty mapping.
\<close>

theorem parse_note_intensities_never_raises:
  "(\<exists>d. parse_note_intensities v = Inr d) \<and>
   parse_note_intensities (PStr ''chocolate:4;fruit:x;:5;floral:2'' :: 'n pyval) =
     Inr [(''chocolate'', 4), (''floral'', 2)] \<and>
   ((\<forall>s. v \<noteq> PStr s) \<longrightarrow> parse_note_intensities v = Inr []) \<and>
   (py_strip s = [] \<longrightarrow> parse_note_intensities (PStr s :: 'n pyval) = Inr []) \<and>
   (malformed p \<longrightarrow> parse_parts (p # ps) out = parse_parts ps out)"
  using parse_note_intensities_ok parse_example parse_note_intensities_not_str
    parse_note_intensities_blank parse_parts_malformed
  by blast

theorem parse_note_intensities_never_raises_witness:
  "parse_note_intensities (PInt 7 :: unit pyval) = Inr [] \<and>
   parse_note_intensities (PStr '' '' :: unit pyval) = Inr [] \<and>
   malformed ''fruit:x'' \<and>
   parse_parts [''fruit:x'', ''floral:2''] [(''chocolate'', 4)] =
     Inr [(''chocolate'', 4), (''floral'', 2)]"
proof -
  note t = parse_note_intensities_never_raises
    [of "PInt 7 :: unit pyval" "'' ''" "''fruit:x''" "[''floral:2'']" "[(''chocolate'', 4)]"]
  have a: "\<forall>s. (PInt 7 :: unit pyval) \<noteq> PStr s" by simp
  have b: "py_strip '' '' = []" by code_simp
  have c: "malformed ''fruit:x''" by code_simp
  have d: "parse_parts [''floral:2''] [(''chocolate'', 4)] =
     Inr [(''chocolate'', 4), (''floral'', 2)]"
    by code_simp
  from t a have "parse_note_intensities (PInt 7 :: unit pyval) = Inr []" by blast
  moreover from t b have "parse_note_intensities (PStr '' '' :: unit pyval) = Inr []" by blast
  moreover from t c have "parse_parts [''fruit:x'', ''floral:2''] [(''chocolate'', 4)] =
     parse_parts [''floral:2''] [(''chocolate'', 4)]" by blast
  ultimately show ?thesis using c d by simp
qed

section \<open>The graph operations: what they keep and when they succeed\<close>

lemma ebind_Inr: "ebind (Inr x) f = f x"
  by (simp add: ebind_def)

lemma ebind_Inl: "ebind (Inl e) f = Inl e"
  by (simp add: ebind_def)

lemma ebind_eq_Inr: "ebind m f = Inr y \<longleftrightarrow> (\<exists>x. m = Inr x \<and> f x = Inr y)"
  by (cases m) (simp_all add: ebind_def)

lemma has_key_iff: "has_key ks props \<longleftrightarrow> (\<exists>k \<in> set ks. k \<in> fst ` set props)"
  by (auto simp: has_key_def list_ex_iff)

lemma dict_update_Nil: "dict_update d [] = d"
  by (simp add: dict_update_def)

lemma dict_update_Cons: "dict_update d (kv # kw) = dict_update (d(fst kv \<mapsto> snd kv)) kw"
  by (cases kv) (simp add: dict_update_def)

lemma dict_update_notin: "k \<notin> fst ` set kw \<Longrightarrow> dict_update d kw k = d k"
  by (induction kw arbitrary: d) (auto simp: dict_update_Nil dict_update_Cons)

lemma dict_update_in:
  "distinct (map fst kw) \<Longrightarrow> (k, v) \<in> set kw \<Longrightarrow> dict_update d kw k = Some v"
proof (induction kw arbitrary: d)
  case Nil
  then show ?case by simp
next
  case (Cons kv kw)
  show ?case
  proof (cases "kv = (k, v)")
    case True
    with Cons.prems(1) have "k \<notin> fst ` set kw" by auto
    then have "dict_update (d(k \<mapsto> v)) kw k = (d(k \<mapsto> v)) k" by (rule dict_update_notin)
    with True show ?thesis by (simp add: dict_update_Cons)
  next
    case False
    with Cons.prems have "distinct (map fst kw)" and "(k, v) \<in> set kw" by auto
    then have "dict_update (d(fst kv \<mapsto> snd kv)) kw k = Some v" by (rule Cons.IH)
    then show ?thesis by (simp add: dict_update_Cons)
  qed
qed

lemma merge_prop_keeps:
  "a k = Some x \<Longrightarrow> x \<noteq> PNone \<Longrightarrow> x \<noteq> PStr [] \<Longrightarrow> merge_prop a kv k = Some x"
  by (auto simp: merge_prop_def Let_def)

lemma foldl_merge_prop_keeps:
  "a k = Some x \<Longrightarrow> x \<noteq> PNone \<Longrightarrow> x \<noteq> PStr [] \<Longrightarrow> foldl merge_prop a props k = Some x"
  by (induction props arbitrary: a) (simp_all add: merge_prop_keeps)

lemma merge_prop_other: "fst kv \<noteq> k \<Longrightarrow> merge_prop a kv k = a k"
  by (simp add: merge_prop_def Let_def)

lemma foldl_merge_prop_other: "k \<notin> fst ` set props \<Longrightarrow> foldl merge_prop a props k = a k"
proof (induction props arbitrary: a)
  case Nil
  show ?case by simp
next
  case (Cons kv props)
  from Cons.prems have "fst kv \<noteq> k" and "k \<notin> fst ` set props" by auto
  then show ?case by (simp add: Cons.IH merge_prop_other)
qed

lemma merge_prop_empty: "snd kv = PNone \<or> snd kv = PStr [] \<Longrightarrow> merge_prop a kv = a"
  by (auto simp: merge_prop_def Let_def)

lemma foldl_merge_prop_empty:
  "(\<And>v. (k, v) \<in> set props \<Longrightarrow> v = PNone \<or> v = PStr []) \<Longrightarrow> foldl merge_prop a props k = a k"
proof (induction props arbitrary: a)
  case Nil
  show ?case by simp
next
  case (Cons kv props)
  have "merge_prop a kv k = a k"
  proof (cases "fst kv = k")
    case True
    then have "(k, snd kv) \<in> set (kv # props)" by (cases kv) simp
    then have "snd kv = PNone \<or> snd kv = PStr []" by (rule Cons.prems)
    then show ?thesis by (simp add: merge_prop_empty)
  next
    case False
    then show ?thesis by (rule merge_prop_other)
  qed
  moreover have "foldl merge_prop (merge_prop a kv) props k = merge_prop a kv k"
    using Cons.prems by (intro Cons.IH) simp
  ultimately show ?case by simp
qed

lemma ensure_node_existing:
  assumes "ensure_node G n l t p = Inr G'" and "nodes G n = Some a"
  shows "G' = G\<lparr>nodes := (nodes G)(n \<mapsto> foldl merge_prop a p)\<rparr>"
  using assms by (simp add: ensure_node_def split: if_splits)

lemma ensure_node_new:
  assumes "ensure_node G n l t p = Inr G'" and "nodes G n = None"
  shows "G' = G\<lparr>nodes := (nodes G)(n \<mapsto>
           dict_update Map.empty ((''label'', PStr l) # (''type'', PStr t) # p))\<rparr>"
  using assms by (simp add: ensure_node_def split: if_splits)

lemma ensure_node_no_label:
  assumes "ensure_node G n l t p = Inr G'"
  shows "''label'' \<notin> fst ` set p"
  using assms by (auto simp: ensure_node_def has_key_iff split: if_splits)

lemma ensure_node_edges:
  assumes "ensure_node G n l t p = Inr G'"
  shows "edges G' = edges G"
  using assms by (cases "nodes G n") (auto dest: ensure_node_new ensure_node_existing)

lemma ensure_node_other:
  assumes "ensure_node G n l t p = Inr G'" and "m \<noteq> n"
  shows "nodes G' m = nodes G m"
  using assms by (cases "nodes G n") (auto dest: ensure_node_new ensure_node_existing)

lemma node_stable_refl: "node_stable G G"
  by (simp add: node_stable_def)

lemma node_stable_trans [trans]:
  assumes "node_stable G1 G2" and "node_stable G2 G3"
  shows "node_stable G1 G3"
  unfolding node_stable_def
proof (intro allI impI)
  fix n a assume "nodes G1 n = Some a"
  with assms(1) obtain b where b: "nodes G2 n = Some b" "b ''label'' = a ''label''"
    "b ''type'' = a ''type''"
    "\<And>k x. a k = Some x \<Longrightarrow> x \<noteq> PNone \<Longrightarrow> x \<noteq> PStr [] \<Longrightarrow> b k = Some x"
    unfolding node_stable_def by blast
  from assms(2) b(1) obtain c where c: "nodes G3 n = Some c" "c ''label'' = b ''label''"
    "c ''type'' = b ''type''"
    "\<And>k x. b k = Some x \<Longrightarrow> x \<noteq> PNone \<Longrightarrow> x \<noteq> PStr [] \<Longrightarrow> c k = Some x"
    unfolding node_stable_def by blast
  show "\<exists>a'. nodes G3 n = Some a' \<and> a' ''label'' = a ''label'' \<and> a' ''type'' = a ''type'' \<and>
          (\<forall>k x. a k = Some x \<longrightarrow> x \<noteq> PNone \<longrightarrow> x \<noteq> PStr [] \<longrightarrow> a' k = Some x)"
    using b c by (intro exI [of _ c]) simp
qed

lemma ensure_node_stable:
  assumes e: "ensure_node G n l t p = Inr G'" and ty: "''type'' \<notin> fst ` set p"
  shows "node_stable G G'"
  unfolding node_stable_def
proof (intro allI impI)
  fix m a assume m: "nodes G m = Some a"
  show "\<exists>a'. nodes G' m = Some a' \<and> a' ''label'' = a ''label'' \<and> a' ''type'' = a ''type'' \<and>
          (\<forall>k x. a k = Some x \<longrightarrow> x \<noteq> PNone \<longrightarrow> x \<noteq> PStr [] \<longrightarrow> a' k = Some x)"
  proof (cases "m = n")
    case False
    with e have "nodes G' m = nodes G m" by (rule ensure_node_other)
    with m show ?thesis by simp
  next
    case True
    with m have "nodes G n = Some a" by simp
    with e have "G' = G\<lparr>nodes := (nodes G)(n \<mapsto> foldl merge_prop a p)\<rparr>"
      by (rule ensure_node_existing)
    then have n': "nodes G' m = Some (foldl merge_prop a p)" using True by simp
    have "foldl merge_prop a p ''label'' = a ''label''"
      using ensure_node_no_label [OF e] by (rule foldl_merge_prop_other)
    moreover have "foldl merge_prop a p ''type'' = a ''type''"
      using ty by (rule foldl_merge_prop_other)
    ultimately show ?thesis using n' by (simp add: foldl_merge_prop_keeps)
  qed
qed

lemma add_edge_eq:
  assumes "add_edge G s r d p = Inr G'"
  shows "G' = nx_add_edge G s d r ((''type'', PStr r) # p)"
  using assms by (simp add: add_edge_def split: if_splits)

lemma add_edge_no_type:
  assumes "add_edge G s r d p = Inr G'"
  shows "''type'' \<notin> fst ` set p"
  using assms by (auto simp: add_edge_def has_key_iff split: if_splits)

lemma nx_add_edge_nodes:
  "nodes G m = Some a \<Longrightarrow> nodes (nx_add_edge G u v key attr) m = Some a"
  by (auto simp: nx_add_edge_def Let_def split: option.splits)

lemma nx_add_edge_edges_same:
  "edges (nx_add_edge G u v key attr) (u, v, key) =
     Some (dict_update (case edges G (u, v, key) of None \<Rightarrow> Map.empty | Some d \<Rightarrow> d) attr)"
  by (simp add: nx_add_edge_def Let_def)

lemma nx_add_edge_edges_other:
  "e \<noteq> (u, v, key) \<Longrightarrow> edges (nx_add_edge G u v key attr) e = edges G e"
  by (simp add: nx_add_edge_def Let_def)

lemma add_edge_stable:
  assumes "add_edge G s r d p = Inr G'"
  shows "node_stable G G'"
  unfolding node_stable_def add_edge_eq [OF assms] by (simp add: nx_add_edge_nodes)


lemma ensure_notes_stable: "ensure_notes G ns = Inr G' \<Longrightarrow> node_stable G G'"
proof (induction ns arbitrary: G)
  case Nil
  then show ?case by (simp add: node_stable_refl)
next
  case (Cons ni ns)
  from Cons.prems obtain G1
    where 1: "ensure_node G (note_id (fst ni)) (fst ni) ''FlavorNote'' [] = Inr G1"
      and 2: "ensure_notes G1 ns = Inr G'"
    by (auto simp: ebind_eq_Inr)
  from 1 have "node_stable G G1" by (rule ensure_node_stable) simp
  moreover from 2 have "node_stable G1 G'" by (rule Cons.IH)
  ultimately show ?case by (rule node_stable_trans)
qed

lemma ensure_notes_edges: "ensure_notes G ns = Inr G' \<Longrightarrow> edges G' = edges G"
proof (induction ns arbitrary: G)
  case Nil
  then show ?case by simp
next
  case (Cons ni ns)
  from Cons.prems obtain G1
    where 1: "ensure_node G (note_id (fst ni)) (fst ni) ''FlavorNote'' [] = Inr G1"
      and 2: "ensure_notes G1 ns = Inr G'"
    by (auto simp: ebind_eq_Inr)
  from 1 have "edges G1 = edges G" by (rule ensure_node_edges)
  moreover from 2 have "edges G' = edges G1" by (rule Cons.IH)
  ultimately show ?case by simp
qed

lemma add_nodes_steps:
  assumes "add_nodes G f = Inr G'"
  obtains G1 G2 G3 G4 G5 G6 G7 where
    "ensure_node G (roaster_id f) (roaster f) ''Roaster'' [] = Inr G1"
    "ensure_node G1 (beanlot_id f) (coffee_name f) ''BeanLot'' [] = Inr G2"
    "ensure_node G2 (roastbatch_id f)
       (coffee_name f @ '' ('' @ roast_level f @ '')'') ''RoastBatch''
       [(''roast_level'', PStr (roast_level f))] = Inr G3"
    "ensure_node G3 (grinder_id f) (grinder f) ''Grinder'' [] = Inr G4"
    "ensure_node G4 (brewer_id f)
       (py_strip (brewer_brand f @ '' '' @ brewer_model f)) ''Brewer''
       [(''brand'', PStr (brewer_brand f)), (''model'', PStr (brewer_model f)),
        (''filter_material'', PStr (filter_material f))] = Inr G5"
    "ensure_node G5 (brew_session_id f) (brew_id f) ''BrewSession''
       [(''dose_g'', PFloat (dose_g f)),
        (''total_brew_time_sec'', PFloat (total_brew_time_sec f)),
        (''notes_overall'', PStr (notes_overall f)),
        (''barista'', PStr (barista f)),
        (''brew_date'', PStr (brew_date f))] = Inr G6"
    "ensure_node G6 (eval_id f) (''Eval '' @ brew_id f) ''SensoryEvaluation''
       [(''sweetness_0_10'', PFloat (sweetness_0_10 f)),
        (''acidity_0_10'', PFloat (acidity_0_10 f)),
        (''bitterness_0_10'', PFloat (bitterness_0_10 f)),
        (''body_0_10'', PFloat (body_0_10 f)),
        (''overall_0_10'', PFloat (overall_0_10 f))] = Inr G7"
    "ensure_notes G7 (note_map f) = Inr G'"
  using assms unfolding add_nodes_def ebind_eq_Inr by blast

lemma add_nodes_stable:
  assumes "add_nodes G f = Inr G'"
  shows "node_stable G G'"
proof -
  from assms obtain G1 G2 G3 G4 G5 G6 G7 where
    s: "ensure_node G (roaster_id f) (roaster f) ''Roaster'' [] = Inr G1"
    "ensure_node G1 (beanlot_id f) (coffee_name f) ''BeanLot'' [] = Inr G2"
    "ensure_node G2 (roastbatch_id f)
       (coffee_name f @ '' ('' @ roast_level f @ '')'') ''RoastBatch''
       [(''roast_level'', PStr (roast_level f))] = Inr G3"
    "ensure_node G3 (grinder_id f) (grinder f) ''Grinder'' [] = Inr G4"
    "ensure_node G4 (brewer_id f)
       (py_strip (brewer_brand f @ '' '' @ brewer_model f)) ''Brewer''
       [(''brand'', PStr (brewer_brand f)), (''model'', PStr (brewer_model f)),
        (''filter_material'', PStr (filter_material f))] = Inr G5"
    "ensure_node G5 (brew_session_id f) (brew_id f) ''BrewSession''
       [(''dose_g'', PFloat (dose_g f)),
        (''total_brew_time_sec'', PFloat (total_brew_time_sec f)),
        (''notes_overall'', PStr (notes_overall f)),
        (''barista'', PStr (barista f)),
        (''brew_date'', PStr (brew_date f))] = Inr G6"
    "ensure_node G6 (eval_id f) (''Eval '' @ brew_id f) ''SensoryEvaluation''
       [(''sweetness_0_10'', PFloat (sweetness_0_10 f)),
        (''acidity_0_10'', PFloat (acidity_0_10 f)),
        (''bitterness_0_10'', PFloat (bitterness_0_10 f)),
        (''body_0_10'', PFloat (body_0_10 f)),
        (''overall_0_10'', PFloat (overall_0_10 f))] = Inr G7"
    and n: "ensure_notes G7 (note_map f) = Inr G'"
    by (rule add_nodes_steps)
  have "node_stable G G1" using s(1) by (rule ensure_node_stable) simp
  also have "node_stable G1 G2" using s(2) by (rule ensure_node_stable) simp
  also have "node_stable G2 G3" using s(3) by (rule ensure_node_stable) simp
  also have "node_stable G3 G4" using s(4) by (rule ensure_node_stable) simp
  also have "node_stable G4 G5" using s(5) by (rule ensure_node_stable) simp
  also have "node_stable G5 G6" using s(6) by (rule ensure_node_stable) simp
  also have "node_stable G6 G7" using s(7) by (rule ensure_node_stable) simp
  also have "node_stable G7 G'" using n by (rule ensure_notes_stable)
  finally show ?thesis .
qed

lemma add_nodes_edges:
  assumes "add_nodes G f = Inr G'"
  shows "edges G' = edges G"
proof -
  from assms obtain G1 G2 G3 G4 G5 G6 G7 where
    s: "ensure_node G (roaster_id f) (roaster f) ''Roaster'' [] = Inr G1"
    "ensure_node G1 (beanlot_id f) (coffee_name f) ''BeanLot'' [] = Inr G2"
    "ensure_node G2 (roastbatch_id f)
       (coffee_name f @ '' ('' @ roast_level f @ '')'') ''RoastBatch''
       [(''roast_level'', PStr (roast_level f))] = Inr G3"
    "ensure_node G3 (grinder_id f) (grinder f) ''Grinder'' [] = Inr G4"
    "ensure_node G4 (brewer_id f)
       (py_strip (brewer_brand f @ '' '' @ brewer_model f)) ''Brewer''
       [(''brand'', PStr (brewer_brand f)), (''model'', PStr (brewer_model f)),
        (''filter_material'', PStr (filter_material f))] = Inr G5"
    "ensure_node G5 (brew_session_id f) (brew_id f) ''BrewSession''
       [(''dose_g'', PFloat (dose_g f)),
        (''total_brew_time_sec'', PFloat (total_brew_time_sec f)),
        (''notes_overall'', PStr (notes_overall f)),
        (''barista'', PStr (barista f)),
        (''brew_date'', PStr (brew_date f))] = Inr G6"
    "ensure_node G6 (eval_id f) (''Eval '' @ brew_id f) ''SensoryEvaluation''
       [(''sweetness_0_10'', PFloat (sweetness_0_10 f)),
        (''acidity_0_10'', PFloat (acidity_0_10 f)),
        (''bitterness_0_10'', PFloat (bitterness_0_10 f)),
        (''body_0_10'', PFloat (body_0_10 f)),
        (''overall_0_10'', PFloat (overall_0_10 f))] = Inr G7"
    and n: "ensure_notes G7 (note_map f) = Inr G'"
    by (rule add_nodes_steps)
  show ?thesis
    using ensure_node_edges [OF s(1)] ensure_node_edges [OF s(2)] ensure_node_edges [OF s(3)]
      ensure_node_edges [OF s(4)] ensure_node_edges [OF s(5)] ensure_node_edges [OF s(6)]
      ensure_node_edges [OF s(7)] ensure_notes_edges [OF n]
    by simp
qed


lemma add_edge_edges_same:
  assumes "add_edge G s r d p = Inr G'"
  shows "edges G' (s, d, r) =
     Some (dict_update (case edges G (s, d, r) of None \<Rightarrow> Map.empty | Some x \<Rightarrow> x)
             ((''type'', PStr r) # p))"
  unfolding add_edge_eq [OF assms] by (rule nx_add_edge_edges_same)

lemma add_edge_edges_other:
  assumes "add_edge G s r d p = Inr G'" and "e \<noteq> (s, d, r)"
  shows "edges G' e = edges G e"
  unfolding add_edge_eq [OF assms(1)] using assms(2) by (rule nx_add_edge_edges_other)

lemma add_note_edges_stable: "add_note_edges G ev ns = Inr G' \<Longrightarrow> node_stable G G'"
proof (induction ns arbitrary: G)
  case Nil
  then show ?case by (simp add: node_stable_refl)
next
  case (Cons ni ns)
  from Cons.prems obtain G1
    where 1: "add_edge G ev ''HAS_NOTE'' (note_id (fst ni)) [(''intensity'', PInt (snd ni))] = Inr G1"
      and 2: "add_note_edges G1 ev ns = Inr G'"
    by (auto simp: ebind_eq_Inr)
  from 1 have "node_stable G G1" by (rule add_edge_stable)
  moreover from 2 have "node_stable G1 G'" by (rule Cons.IH)
  ultimately show ?case by (rule node_stable_trans)
qed

lemma add_note_edges_other:
  "add_note_edges G ev ns = Inr G' \<Longrightarrow> rel \<noteq> ''HAS_NOTE'' \<Longrightarrow>
     edges G' (s, d, rel) = edges G (s, d, rel)"
proof (induction ns arbitrary: G)
  case Nil
  then show ?case by simp
next
  case (Cons ni ns)
  from Cons.prems(1) obtain G1
    where 1: "add_edge G ev ''HAS_NOTE'' (note_id (fst ni)) [(''intensity'', PInt (snd ni))] = Inr G1"
      and 2: "add_note_edges G1 ev ns = Inr G'"
    by (auto simp: ebind_eq_Inr)
  from 1 have "edges G1 (s, d, rel) = edges G (s, d, rel)"
    by (rule add_edge_edges_other) (use Cons.prems(2) in simp)
  moreover from 2 Cons.prems(2) have "edges G' (s, d, rel) = edges G1 (s, d, rel)"
    by (rule Cons.IH)
  ultimately show ?case by simp
qed

lemma add_edges_steps:
  assumes "add_edges G f mp = Inr G'"
  obtains G1 G2 G3 G4 G5 G6 where
    "add_edge G (roaster_id f) ''PRODUCES'' (beanlot_id f) [] = Inr G1"
    "add_edge G1 (beanlot_id f) ''ROASTED_AS'' (roastbatch_id f)
       [(''roast_date'', PStr (roast_date f))] = Inr G2"
    "add_edge G2 (brew_session_id f) ''USES_GRINDER'' (grinder_id f)
       [(''grind_setting'', PStr (grind_setting f))] = Inr G3"
    "add_edge G3 (brew_session_id f) ''BREWED_WITH'' (brewer_id f) mp = Inr G4"
    "add_edge G4 (brew_session_id f) ''USES_ROAST'' (roastbatch_id f) [] = Inr G5"
    "add_edge G5 (brew_session_id f) ''EVALUATED_AS'' (eval_id f) [] = Inr G6"
    "add_note_edges G6 (eval_id f) (note_map f) = Inr G'"
  using assms unfolding add_edges_def ebind_eq_Inr by blast

lemma add_edges_stable:
  assumes "add_edges G f mp = Inr G'"
  shows "node_stable G G'"
proof -
  from assms obtain G1 G2 G3 G4 G5 G6 where
    s: "add_edge G (roaster_id f) ''PRODUCES'' (beanlot_id f) [] = Inr G1"
    "add_edge G1 (beanlot_id f) ''ROASTED_AS'' (roastbatch_id f)
       [(''roast_date'', PStr (roast_date f))] = Inr G2"
    "add_edge G2 (brew_session_id f) ''USES_GRINDER'' (grinder_id f)
       [(''grind_setting'', PStr (grind_setting f))] = Inr G3"
    "add_edge G3 (brew_session_id f) ''BREWED_WITH'' (brewer_id f) mp = Inr G4"
    "add_edge G4 (brew_session_id f) ''USES_ROAST'' (roastbatch_id f) [] = Inr G5"
    "add_edge G5 (brew_session_id f) ''EVALUATED_AS'' (eval_id f) [] = Inr G6"
    and n: "add_note_edges G6 (eval_id f) (note_map f) = Inr G'"
    by (rule add_edges_steps)
  have "node_stable G G1" using s(1) by (rule add_edge_stable)
  also have "node_stable G1 G2" using s(2) by (rule add_edge_stable)
  also have "node_stable G2 G3" using s(3) by (rule add_edge_stable)
  also have "node_stable G3 G4" using s(4) by (rule add_edge_stable)
  also have "node_stable G4 G5" using s(5) by (rule add_edge_stable)
  also have "node_stable G5 G6" using s(6) by (rule add_edge_stable)
  also have "node_stable G6 G'" using n by (rule add_note_edges_stable)
  finally show ?thesis .
qed

lemma add_edges_brewed_with:
  assumes "add_edges G f mp = Inr G'"
  shows "edges G' (brew_session_id f, brewer_id f, ''BREWED_WITH'') =
     Some (dict_update
       (case edges G (brew_session_id f, brewer_id f, ''BREWED_WITH'') of
          None \<Rightarrow> Map.empty | Some x \<Rightarrow> x)
       ((''type'', PStr ''BREWED_WITH'') # mp))"
proof -
  let ?e = "(brew_session_id f, brewer_id f, ''BREWED_WITH'')"
  from assms obtain G1 G2 G3 G4 G5 G6 where
    s: "add_edge G (roaster_id f) ''PRODUCES'' (beanlot_id f) [] = Inr G1"
    "add_edge G1 (beanlot_id f) ''ROASTED_AS'' (roastbatch_id f)
       [(''roast_date'', PStr (roast_date f))] = Inr G2"
    "add_edge G2 (brew_session_id f) ''USES_GRINDER'' (grinder_id f)
       [(''grind_setting'', PStr (grind_setting f))] = Inr G3"
    "add_edge G3 (brew_session_id f) ''BREWED_WITH'' (brewer_id f) mp = Inr G4"
    "add_edge G4 (brew_session_id f) ''USES_ROAST'' (roastbatch_id f) [] = Inr G5"
    "add_edge G5 (brew_session_id f) ''EVALUATED_AS'' (eval_id f) [] = Inr G6"
    and n: "add_note_edges G6 (eval_id f) (note_map f) = Inr G'"
    by (rule add_edges_steps)
  have 1: "edges G1 ?e = edges G ?e" using s(1) by (rule add_edge_edges_other) simp
  have 2: "edges G2 ?e = edges G1 ?e" using s(2) by (rule add_edge_edges_other) simp
  have 3: "edges G3 ?e = edges G2 ?e" using s(3) by (rule add_edge_edges_other) simp
  have 4: "edges G4 ?e = Some (dict_update (case edges G3 ?e of None \<Rightarrow> Map.empty | Some x \<Rightarrow> x)
       ((''type'', PStr ''BREWED_WITH'') # mp))"
    using s(4) by (rule add_edge_edges_same)
  have 5: "edges G5 ?e = edges G4 ?e" using s(5) by (rule add_edge_edges_other) simp
  have 6: "edges G6 ?e = edges G5 ?e" using s(6) by (rule add_edge_edges_other) simp
  have 7: "edges G' ?e = edges G6 ?e" using n by (rule add_note_edges_other) simp
  show ?thesis by (simp only: 1 2 3 4 5 6 7)
qed

lemma add_edges_no_reserved:
  assumes "add_edges G f mp = Inr G'"
  shows "\<not> has_key [''G'', ''src'', ''rel'', ''dst'', ''key'', ''type'', ''u_for_edge'',
            ''v_for_edge''] mp"
proof -
  from assms obtain G3 G4 where
    "add_edge G3 (brew_session_id f) ''BREWED_WITH'' (brewer_id f) mp = Inr G4"
    by (rule add_edges_steps)
  then show ?thesis by (auto simp: add_edge_def has_key_iff split: if_splits)
qed

lemma process_row_steps:
  assumes "process_row py cols G r = Inr G'"
  obtains f G1 where "read_row py r = Inr f" "add_nodes G f = Inr G1"
    "add_edges G1 f (method_params py cols r (brew_method f)) = Inr G'"
  using assms unfolding process_row_def ebind_eq_Inr by blast

lemma process_row_stable:
  assumes "process_row py cols G r = Inr G'"
  shows "node_stable G G'"
proof -
  from assms obtain f G1 where "add_nodes G f = Inr G1"
    "add_edges G1 f (method_params py cols r (brew_method f)) = Inr G'"
    by (rule process_row_steps)
  then show ?thesis using add_nodes_stable add_edges_stable node_stable_trans by blast
qed

lemma process_rows_stable: "process_rows py cols G rs = Inr G' \<Longrightarrow> node_stable G G'"
proof (induction rs arbitrary: G)
  case Nil
  then show ?case by (simp add: node_stable_refl)
next
  case (Cons r rs)
  from Cons.prems obtain G1 where 1: "process_row py cols G r = Inr G1"
    and 2: "process_rows py cols G1 rs = Inr G'"
    by (auto simp: ebind_eq_Inr)
  from 1 have "node_stable G G1" by (rule process_row_stable)
  moreover from 2 have "node_stable G1 G'" by (rule Cons.IH)
  ultimately show ?case by (rule node_stable_trans)
qed

lemma process_row_brewed_with:
  assumes "process_row py cols G r = Inr G'" and "read_row py r = Inr f"
  shows "edges G' (brew_session_id f, brewer_id f, ''BREWED_WITH'') =
     Some (dict_update
       (case edges G (brew_session_id f, brewer_id f, ''BREWED_WITH'') of
          None \<Rightarrow> Map.empty | Some x \<Rightarrow> x)
       ((''type'', PStr ''BREWED_WITH'') # method_params py cols r (brew_method f)))"
proof -
  from assms(1) obtain f' G1 where f': "read_row py r = Inr f'" and n: "add_nodes G f' = Inr G1"
    and e: "add_edges G1 f' (method_params py cols r (brew_method f')) = Inr G'"
    by (rule process_row_steps)
  from f' assms(2) have ff: "f' = f" by simp
  from n have "edges G1 = edges G" by (rule add_nodes_edges)
  with add_edges_brewed_with [OF e] show ?thesis by (simp add: ff)
qed


lemma ensure_node_ok:
  assumes "\<not> has_key [''G'', ''node_id'', ''label'', ''node_type'', ''type'', ''node_for_adding''] p"
  shows "\<exists>G'. ensure_node G n l t p = Inr G'"
  using assms by (cases "nodes G n") (auto simp: ensure_node_def has_key_iff)

lemma ensure_notes_ok: "\<exists>G'. ensure_notes G ns = Inr G'"
proof (induction ns arbitrary: G)
  case Nil
  show ?case by simp
next
  case (Cons ni ns)
  have "\<exists>G1. ensure_node G (note_id (fst ni)) (fst ni) ''FlavorNote'' [] = Inr G1"
    by (rule ensure_node_ok) (simp add: has_key_def)
  then obtain G1 where "ensure_node G (note_id (fst ni)) (fst ni) ''FlavorNote'' [] = Inr G1"
    by blast
  with Cons.IH [of G1] show ?case by (simp add: ebind_Inr)
qed

lemma add_nodes_ok: "\<exists>G'. add_nodes G f = Inr G'"
proof -
  have "\<exists>G1. ensure_node G (roaster_id f) (roaster f) ''Roaster'' [] = Inr G1"
    by (rule ensure_node_ok) (simp add: has_key_def)
  then obtain G1 where 1: "ensure_node G (roaster_id f) (roaster f) ''Roaster'' [] = Inr G1"
    by blast
  have "\<exists>G2. ensure_node G1 (beanlot_id f) (coffee_name f) ''BeanLot'' [] = Inr G2"
    by (rule ensure_node_ok) (simp add: has_key_def)
  then obtain G2 where 2: "ensure_node G1 (beanlot_id f) (coffee_name f) ''BeanLot'' [] = Inr G2"
    by blast
  have "\<exists>G3. ensure_node G2 (roastbatch_id f)
       (coffee_name f @ '' ('' @ roast_level f @ '')'') ''RoastBatch''
       [(''roast_level'', PStr (roast_level f))] = Inr G3"
    by (rule ensure_node_ok) (simp add: has_key_def)
  then obtain G3 where 3: "ensure_node G2 (roastbatch_id f)
       (coffee_name f @ '' ('' @ roast_level f @ '')'') ''RoastBatch''
       [(''roast_level'', PStr (roast_level f))] = Inr G3"
    by blast
  have "\<exists>G4. ensure_node G3 (grinder_id f) (grinder f) ''Grinder'' [] = Inr G4"
    by (rule ensure_node_ok) (simp add: has_key_def)
  then obtain G4 where 4: "ensure_node G3 (grinder_id f) (grinder f) ''Grinder'' [] = Inr G4"
    by blast
  have "\<exists>G5. ensure_node G4 (brewer_id f)
       (py_strip (brewer_brand f @ '' '' @ brewer_model f)) ''Brewer''
       [(''brand'', PStr (brewer_brand f)), (''model'', PStr (brewer_model f)),
        (''filter_material'', PStr (filter_material f))] = Inr G5"
    by (rule ensure_node_ok) (simp add: has_key_def)
  then obtain G5 where 5: "ensure_node G4 (brewer_id f)
       (py_strip (brewer_brand f @ '' '' @ brewer_model f)) ''Brewer''
       [(''brand'', PStr (brewer_brand f)), (''model'', PStr (brewer_model f)),
        (''filter_material'', PStr (filter_material f))] = Inr G5"
    by blast
  have "\<exists>G6. ensure_node G5 (brew_session_id f) (brew_id f) ''BrewSession''
       [(''dose_g'', PFloat (dose_g f)),
        (''total_brew_time_sec'', PFloat (total_brew_time_sec f)),
        (''notes_overall'', PStr (notes_overall f)),
        (''barista'', PStr (barista f)),
        (''brew_date'', PStr (brew_date f))] = Inr G6"
    by (rule ensure_node_ok) (simp add: has_key_def)
  then obtain G6 where 6: "ensure_node G5 (brew_session_id f) (brew_id f) ''BrewSession''
       [(''dose_g'', PFloat (dose_g f)),
        (''total_brew_time_sec'', PFloat (total_brew_time_sec f)),
        (''notes_overall'', PStr (notes_overall f)),
        (''barista'', PStr (barista f)),
        (''brew_date'', PStr (brew_date f))] = Inr G6"
    by blast
  have "\<exists>G7. ensure_node G6 (eval_id f) (''Eval '' @ brew_id f) ''SensoryEvaluation''
       [(''sweetness_0_10'', PFloat (sweetness_0_10 f)),
        (''acidity_0_10'', PFloat (acidity_0_10 f)),
        (''bitterness_0_10'', PFloat (bitterness_0_10 f)),
        (''body_0_10'', PFloat (body_0_10 f)),
        (''overall_0_10'', PFloat (overall_0_10 f))] = Inr G7"
    by (rule ensure_node_ok) (simp add: has_key_def)
  then obtain G7 where 7: "ensure_node G6 (eval_id f) (''Eval '' @ brew_id f) ''SensoryEvaluation''
       [(''sweetness_0_10'', PFloat (sweetness_0_10 f)),
        (''acidity_0_10'', PFloat (acidity_0_10 f)),
        (''bitterness_0_10'', PFloat (bitterness_0_10 f)),
        (''body_0_10'', PFloat (body_0_10 f)),
        (''overall_0_10'', PFloat (overall_0_10 f))] = Inr G7"
    by blast
  obtain G8 where 8: "ensure_notes G7 (note_map f) = Inr G8"
    using ensure_notes_ok by blast
  have "add_nodes G f = Inr G8"
    unfolding add_nodes_def by (simp only: 1 2 3 4 5 6 7 8 ebind_Inr)
  then show ?thesis by blast
qed

lemma add_edge_ok:
  assumes "\<not> has_key reserved_edge_keys p"
  shows "\<exists>G'. add_edge G s r d p = Inr G'"
  using assms by (auto simp: add_edge_def has_key_iff reserved_edge_keys_def)

lemma add_note_edges_ok: "\<exists>G'. add_note_edges G ev ns = Inr G'"
proof (induction ns arbitrary: G)
  case Nil
  show ?case by simp
next
  case (Cons ni ns)
  have "\<exists>G1. add_edge G ev ''HAS_NOTE'' (note_id (fst ni)) [(''intensity'', PInt (snd ni))] = Inr G1"
    by (rule add_edge_ok) (simp add: has_key_def reserved_edge_keys_def)
  then obtain G1
    where "add_edge G ev ''HAS_NOTE'' (note_id (fst ni)) [(''intensity'', PInt (snd ni))] = Inr G1"
    by blast
  with Cons.IH [of G1] show ?case by (simp add: ebind_Inr)
qed

lemma add_edges_ok:
  assumes "\<not> has_key reserved_edge_keys mp"
  shows "\<exists>G'. add_edges G f mp = Inr G'"
proof -
  have "\<exists>G1. add_edge G (roaster_id f) ''PRODUCES'' (beanlot_id f) [] = Inr G1"
    by (rule add_edge_ok) (simp add: has_key_def)
  then obtain G1 where 1: "add_edge G (roaster_id f) ''PRODUCES'' (beanlot_id f) [] = Inr G1"
    by blast
  have "\<exists>G2. add_edge G1 (beanlot_id f) ''ROASTED_AS'' (roastbatch_id f)
       [(''roast_date'', PStr (roast_date f))] = Inr G2"
    by (rule add_edge_ok) (simp add: has_key_def reserved_edge_keys_def)
  then obtain G2 where 2: "add_edge G1 (beanlot_id f) ''ROASTED_AS'' (roastbatch_id f)
       [(''roast_date'', PStr (roast_date f))] = Inr G2"
    by blast
  have "\<exists>G3. add_edge G2 (brew_session_id f) ''USES_GRINDER'' (grinder_id f)
       [(''grind_setting'', PStr (grind_setting f))] = Inr G3"
    by (rule add_edge_ok) (simp add: has_key_def reserved_edge_keys_def)
  then obtain G3 where 3: "add_edge G2 (brew_session_id f) ''USES_GRINDER'' (grinder_id f)
       [(''grind_setting'', PStr (grind_setting f))] = Inr G3"
    by blast
  have "\<exists>G4. add_edge G3 (brew_session_id f) ''BREWED_WITH'' (brewer_id f) mp = Inr G4"
    using assms by (rule add_edge_ok)
  then obtain G4
    where 4: "add_edge G3 (brew_session_id f) ''BREWED_WITH'' (brewer_id f) mp = Inr G4"
    by blast
  have "\<exists>G5. add_edge G4 (brew_session_id f) ''USES_ROAST'' (roastbatch_id f) [] = Inr G5"
    by (rule add_edge_ok) (simp add: has_key_def)
  then obtain G5
    where 5: "add_edge G4 (brew_session_id f) ''USES_ROAST'' (roastbatch_id f) [] = Inr G5"
    by blast
  have "\<exists>G6. add_edge G5 (brew_session_id f) ''EVALUATED_AS'' (eval_id f) [] = Inr G6"
    by (rule add_edge_ok) (simp add: has_key_def)
  then obtain G6
    where 6: "add_edge G5 (brew_session_id f) ''EVALUATED_AS'' (eval_id f) [] = Inr G6"
    by blast
  obtain G7 where 7: "add_note_edges G6 (eval_id f) (note_map f) = Inr G7"
    using add_note_edges_ok by blast
  have "add_edges G f mp = Inr G7"
    unfolding add_edges_def by (simp only: 1 2 3 4 5 6 7 ebind_Inr)
  then show ?thesis by blast
qed

lemma process_row_ok:
  assumes "read_row py r = Inr f"
    and "\<not> has_key reserved_edge_keys (method_params py cols r (brew_method f))"
  shows "\<exists>G'. process_row py cols G r = Inr G'"
proof -
  obtain G1 where 1: "add_nodes G f = Inr G1" using add_nodes_ok by blast
  obtain G2 where 2: "add_edges G1 f (method_params py cols r (brew_method f)) = Inr G2"
    using add_edges_ok [OF assms(2)] by blast
  have "process_row py cols G r = Inr G2"
    unfolding process_row_def by (simp only: assms(1) 1 2 ebind_Inr)
  then show ?thesis by blast
qed

section \<open>Reading a row: defaults and errors\<close>

lemma read_row_fields:
  assumes "read_row (py :: 'n py) r = Inr f"
  shows "float_field py r ''dose_g'' = Inr (dose_g f) \<and>
    float_field py r ''total_brew_time_sec'' = Inr (total_brew_time_sec f) \<and>
    float_field py r ''sweetness_0_10'' = Inr (sweetness_0_10 f) \<and>
    float_field py r ''acidity_0_10'' = Inr (acidity_0_10 f) \<and>
    float_field py r ''bitterness_0_10'' = Inr (bitterness_0_10 f) \<and>
    float_field py r ''body_0_10'' = Inr (body_0_10 f) \<and>
    float_field py r ''overall_0_10'' = Inr (overall_0_10 f) \<and>
    parse_note_intensities (PStr (str_field py r ''notes_intensities'' []) :: 'n pyval) =
      Inr (note_map f) \<and>
    brew_id f = str_field py r ''brew_id'' ''unknown'' \<and>
    barista f = str_field py r ''barista'' ''unknown'' \<and>
    brew_date f = str_field py r ''brew_date'' ''unknown'' \<and>
    roaster f = str_field py r ''roaster'' ''unknown'' \<and>
    coffee_name f = str_field py r ''coffee_name'' ''unknown'' \<and>
    roast_level f = str_field py r ''roast_level'' ''unknown'' \<and>
    grinder f = str_field py r ''grinder'' ''unknown'' \<and>
    grind_setting f = str_field py r ''grind_setting'' ''unknown'' \<and>
    brew_method f = str_field py r ''brew_method'' ''unknown'' \<and>
    brewer_brand f = str_field py r ''brewer_brand'' ''unknown'' \<and>
    brewer_model f = str_field py r ''brewer_model'' ''unknown'' \<and>
    roast_date f = opt_str_field py r ''roast_date'' \<and>
    filter_material f = opt_str_field py r ''filter_material'' \<and>
    notes_overall f = opt_str_field py r ''notes_overall''"
  using assms unfolding read_row_def ebind_eq_Inr sum.inject
  by (elim exE conjE) (hypsubst, simp)

lemma float_field_numeric:
  assumes "read_row py r = Inr f" and "k \<in> set numeric_fields"
  shows "\<not> isl (float_field py r k)"
  using read_row_fields [OF assms(1)] assms(2) by (auto simp: numeric_fields_def)

lemma read_row_ok:
  assumes "list_all (\<lambda>k. \<not> isl (float_field (py :: 'n py) r k)) numeric_fields"
  shows "\<exists>f. read_row py r = Inr f"
proof -
  have "\<exists>x. float_field py r k = Inr x" if "k \<in> set numeric_fields" for k
    using assms that by (cases "float_field py r k") (auto simp: list_all_iff)
  then obtain dose total sweetness acidity bitterness body overall where
    "float_field py r ''dose_g'' = Inr dose"
    "float_field py r ''total_brew_time_sec'' = Inr total"
    "float_field py r ''sweetness_0_10'' = Inr sweetness"
    "float_field py r ''acidity_0_10'' = Inr acidity"
    "float_field py r ''bitterness_0_10'' = Inr bitterness"
    "float_field py r ''body_0_10'' = Inr body"
    "float_field py r ''overall_0_10'' = Inr overall"
    unfolding numeric_fields_def by (metis list.set_intros)
  moreover obtain nm
    where "parse_note_intensities (PStr (str_field py r ''notes_intensities'' []) :: 'n pyval) = Inr nm"
    using parse_note_intensities_ok by blast
  ultimately show ?thesis unfolding read_row_def by (simp add: ebind_Inr)
qed

lemma str_field_absent: "r k = None \<Longrightarrow> str_field py r k d = d"
  by (simp add: str_field_def row_get_def)

lemma float_field_absent: "r k = None \<Longrightarrow> float_field py r k = Inr (zero_float py)"
  by (simp add: float_field_def row_get_def)

lemma opt_str_field_null: "\<not> pd_notna py (row_get r k PNone) \<Longrightarrow> opt_str_field py r k = []"
  by (simp add: opt_str_field_def)

lemma float_field_bad:
  assumes "r k = Some (PStr s)" and "float_of_str py s = None"
  shows "float_field py r k = Inl ValueError"
  using assms by (simp add: float_field_def row_get_def)


text \<open>
  C3, as amended: for every row that is read, each string field read with the default
  \<^verbatim>\<open>"unknown"\<close> (brew_id, barista, brew_date, roaster, coffee_name, roast_level, grinder,
  grind_setting, brew_method, brewer_brand, brewer_model) is \<^verbatim>\<open>"unknown"\<close> when the row has
  no entry under its column; each numeric field (dose, brew time, the five sensory scores)
  is \<^verbatim>\<open>0.0\<close> when the row has no entry under its column; and roast_date, filter_material
  and notes_overall are the empty string when the row has no entry under the column or the
  entry is null.
\<close>

theorem read_row_defaults:
  assumes "read_row (py :: 'n py) r = Inr f"
  shows "(r ''brew_id'' = None \<longrightarrow> brew_id f = ''unknown'') \<and>
    (r ''barista'' = None \<longrightarrow> barista f = ''unknown'') \<and>
    (r ''brew_date'' = None \<longrightarrow> brew_date f = ''unknown'') \<and>
    (r ''roaster'' = None \<longrightarrow> roaster f = ''unknown'') \<and>
    (r ''coffee_name'' = None \<longrightarrow> coffee_name f = ''unknown'') \<and>
    (r ''roast_level'' = None \<longrightarrow> roast_level f = ''unknown'') \<and>
    (r ''grinder'' = None \<longrightarrow> grinder f = ''unknown'') \<and>
    (r ''grind_setting'' = None \<longrightarrow> grind_setting f = ''unknown'') \<and>
    (r ''brew_method'' = None \<longrightarrow> brew_method f = ''unknown'') \<and>
    (r ''brewer_brand'' = None \<longrightarrow> brewer_brand f = ''unknown'') \<and>
    (r ''brewer_model'' = None \<longrightarrow> brewer_model f = ''unknown'') \<and>
    (r ''dose_g'' = None \<longrightarrow> dose_g f = zero_float py) \<and>
    (r ''total_brew_time_sec'' = None \<longrightarrow> total_brew_time_sec f = zero_float py) \<and>
    (r ''sweetness_0_10'' = None \<longrightarrow> sweetness_0_10 f = zero_float py) \<and>
    (r ''acidity_0_10'' = None \<longrightarrow> acidity_0_10 f = zero_float py) \<and>
    (r ''bitterness_0_10'' = None \<longrightarrow> bitterness_0_10 f = zero_float py) \<and>
    (r ''body_0_10'' = None \<longrightarrow> body_0_10 f = zero_float py) \<and>
    (r ''overall_0_10'' = None \<longrightarrow> overall_0_10 f = zero_float py) \<and>
    (\<not> pd_notna py (row_get r ''roast_date'' PNone) \<longrightarrow> roast_date f = []) \<and>
    (\<not> pd_notna py (row_get r ''filter_material'' PNone) \<longrightarrow> filter_material f = []) \<and>
    (\<not> pd_notna py (row_get r ''notes_overall'' PNone) \<longrightarrow> notes_overall f = [])"
proof -
  note fs = read_row_fields [OF assms]
  show ?thesis
    using fs
    by (intro conjI impI) (simp_all add: str_field_absent float_field_absent opt_str_field_null)
qed

lemma example_row_read: "\<exists>f. read_row example_py (example_row b m) = Inr f"
proof (rule read_row_ok)
  have "float_field example_py (example_row b m) k = Inr (Some i)"
    if "example_row b m k = Some (PInt i)" for k i
    using that by (simp add: float_field_def row_get_def example_py_def)
  moreover have "example_row b m ''dose_g'' = Some (PInt 15)"
    "example_row b m ''total_brew_time_sec'' = Some (PInt 180)"
    "example_row b m ''sweetness_0_10'' = Some (PInt 7)"
    "example_row b m ''acidity_0_10'' = Some (PInt 6)"
    "example_row b m ''bitterness_0_10'' = Some (PInt 2)"
    "example_row b m ''body_0_10'' = Some (PInt 5)"
    "example_row b m ''overall_0_10'' = Some (PInt 8)"
    by (simp_all add: example_row_def)
  ultimately show "list_all (\<lambda>k. \<not> isl (float_field example_py (example_row b m) k)) numeric_fields"
    by (simp add: numeric_fields_def)
qed

theorem read_row_defaults_witness:
  "field_of grinder (read_row example_py (example_row ''b1'' ''V60'')) = Some ''unknown'' \<and>
   field_of roast_date (read_row example_py (example_row ''b1'' ''V60'')) = Some [] \<and>
   field_of dose_g (read_row example_py ((example_row ''b1'' ''V60'')(''dose_g'' := None))) =
     Some (Some 0)"
proof -
  obtain f where f: "read_row example_py (example_row ''b1'' ''V60'') = Inr f"
    using example_row_read by blast
  have g: "example_row ''b1'' ''V60'' ''grinder'' = None"
    by (simp add: example_row_def)
  have d: "\<not> pd_notna example_py (row_get (example_row ''b1'' ''V60'') ''roast_date'' PNone)"
    by (simp add: example_row_def row_get_def)
  from read_row_defaults [OF f] have 1: "grinder f = ''unknown''" "roast_date f = []"
    by (simp_all add: g d)
  let ?r = "(example_row ''b1'' ''V60'')(''dose_g'' := None)"
  have "list_all (\<lambda>k. \<not> isl (float_field example_py ?r k)) numeric_fields"
    by (simp add: numeric_fields_def float_field_def row_get_def example_py_def example_row_def)
  then obtain f' where f': "read_row example_py ?r = Inr f'"
    using read_row_ok by blast
  have "?r ''dose_g'' = None" by simp
  with read_row_defaults [OF f'] have 2: "dose_g f' = zero_float example_py" by simp
  show ?thesis using f f' 1 2 by (simp add: field_of_def example_py_def)
qed

text \<open>
  C3 as stated fails: a table need not have the optional column \<^verbatim>\<open>roast_date\<close>, and the
  field is then read as the empty string, not as \<^verbatim>\<open>"unknown"\<close>.
\<close>

theorem absent_string_field_counterexample:
  "example_row ''b1'' ''V60'' ''roast_date'' = None \<and>
   field_of roast_date (read_row example_py (example_row ''b1'' ''V60'')) = Some []"
proof -
  obtain f where f: "read_row example_py (example_row ''b1'' ''V60'') = Inr f"
    using example_row_read by blast
  have n: "example_row ''b1'' ''V60'' ''roast_date'' = None"
    by (simp add: example_row_def)
  then have "opt_str_field example_py (example_row ''b1'' ''V60'') ''roast_date'' = []"
    by (simp add: opt_str_field_def row_get_def)
  with read_row_fields [OF f] have "roast_date f = []" by simp
  with f n show ?thesis by (simp add: field_of_def)
qed

text \<open>
  A null cell under a present column is not defaulted: the string field is the text of
  NaN and the numeric field is NaN.
\<close>

lemma null_cell_not_defaulted:
  assumes "read_row (py :: 'n py) r = Inr f" and "isnan py x"
  shows "r ''barista'' = Some (PFloat x) \<Longrightarrow> barista f = str_of_float py x"
    and "r ''dose_g'' = Some (PFloat x) \<Longrightarrow> dose_g f = x"
  using read_row_fields [OF assms(1)]
  by (auto simp: str_field_def float_field_def row_get_def)

text \<open>
  C5: when one or more required columns are absent from the table, the build fails with
  a single error that lists all the missing required columns, whatever the rows hold, and
  returns no graph.
\<close>

theorem missing_required_columns_error:
  assumes "c \<in> set required" and "c \<notin> set (columns df)"
  shows "build_graph_from_brews py df =
           Inl (MissingRequiredColumns (filter (\<lambda>c. c \<notin> set (columns df)) required)) \<and>
         c \<in> set (filter (\<lambda>c. c \<notin> set (columns df)) required)"
proof -
  from assms have "c \<in> set (filter (\<lambda>c. c \<notin> set (columns df)) required)" by simp
  then have m: "c \<in> set (filter (\<lambda>c. c \<notin> set (columns df)) required)" .
  have "filter (\<lambda>c. c \<notin> set (columns df)) required \<noteq> []"
  proof
    assume e: "filter (\<lambda>c. c \<notin> set (columns df)) required = []"
    from m show False unfolding e by simp
  qed
  with m show ?thesis by (simp add: build_graph_from_brews_def Let_def)
qed

theorem missing_required_columns_error_witness:
  "build_graph_from_brews example_py
     \<lparr>columns = filter (\<lambda>c. c \<noteq> ''roaster'' \<and> c \<noteq> ''dose_g'') required,
      rows = [(example_row ''b1'' ''V60'')(''overall_0_10'' \<mapsto> PStr ''high'')]\<rparr> =
   Inl (MissingRequiredColumns [''roaster'', ''dose_g''])"
proof -
  let ?df = "\<lparr>columns = filter (\<lambda>c. c \<noteq> ''roaster'' \<and> c \<noteq> ''dose_g'') required,
      rows = [(example_row ''b1'' ''V60'')(''overall_0_10'' \<mapsto> PStr ''high'')]\<rparr>
      :: (int option) dataframe"
  have a: "''roaster'' \<in> set required" by (simp add: required_def)
  have b: "''roaster'' \<notin> set (columns ?df)" by simp
  have c: "filter (\<lambda>c. c \<notin> set (columns ?df)) required = [''roaster'', ''dose_g'']"
    by (simp add: required_def)
  from missing_required_columns_error [OF a b, of example_py] show ?thesis
    by (simp only: c)
qed

lemma process_row_bad:
  assumes "isl (float_field (py :: 'n py) r k)" and "k \<in> set numeric_fields"
  shows "\<exists>e. process_row py cols G r = Inl e"
proof (cases "process_row py cols G r")
  case (Inl e)
  then show ?thesis by blast
next
  case (Inr G')
  then obtain f where "read_row py r = Inr f" by (rule process_row_steps)
  then have "\<not> isl (float_field py r k)" using assms(2) by (rule float_field_numeric)
  with assms(1) show ?thesis by contradiction
qed

lemma process_rows_bad:
  assumes "r \<in> set rs" and "\<And>G. \<exists>e. process_row py cols G r = Inl e"
  shows "\<exists>e. process_rows py cols G rs = Inl e"
  using assms(1)
proof (induction rs arbitrary: G)
  case Nil
  then show ?case by simp
next
  case (Cons r' rs)
  show ?case
  proof (cases "process_row py cols G r'")
    case (Inl e)
    then show ?thesis by (simp add: ebind_Inl)
  next
    case (Inr G1)
    with assms(2) [of G] have "r \<noteq> r'" by auto
    with Cons.prems have "r \<in> set rs" by simp
    then have "\<exists>e. process_rows py cols G1 rs = Inl e" by (rule Cons.IH)
    with Inr show ?thesis by (simp add: ebind_Inr)
  qed
qed

text \<open>
  C6: when some row holds, under dose, brew time or a sensory score, a text that
  \<^verbatim>\<open>float\<close> rejects, the build ends in an error and returns no graph.
\<close>

theorem bad_numeric_field_aborts:
  assumes "r \<in> set (rows df)" and "k \<in> set numeric_fields"
    and "r k = Some (PStr s)" and "float_of_str py s = None"
  shows "\<exists>e. build_graph_from_brews py df = Inl e"
proof -
  from assms(3,4) have "float_field py r k = Inl ValueError" by (rule float_field_bad)
  then have "isl (float_field py r k)" by simp
  then have "\<And>G. \<exists>e. process_row py (columns df) G r = Inl e"
    using assms(2) by (rule process_row_bad)
  with assms(1) have "\<exists>e. process_rows py (columns df) empty_graph (rows df) = Inl e"
    by (rule process_rows_bad)
  then show ?thesis by (auto simp: build_graph_from_brews_def Let_def)
qed

theorem bad_numeric_field_aborts_witness:
  "\<exists>e. build_graph_from_brews example_py
     \<lparr>columns = required,
      rows = [example_row ''b1'' ''V60'',
              (example_row ''b2'' ''V60'')(''dose_g'' \<mapsto> PStr ''fifteen'')]\<rparr> = Inl e"
proof (rule bad_numeric_field_aborts)
  show "(example_row ''b2'' ''V60'')(''dose_g'' \<mapsto> PStr ''fifteen'') \<in>
    set (rows \<lparr>columns = required,
      rows = [example_row ''b1'' ''V60'',
              (example_row ''b2'' ''V60'')(''dose_g'' \<mapsto> PStr ''fifteen'')]\<rparr>)"
    by simp
  show "''dose_g'' \<in> set numeric_fields" by (simp add: numeric_fields_def)
  show "((example_row ''b2'' ''V60'')(''dose_g'' \<mapsto> PStr ''fifteen'')) ''dose_g'' =
    Some (PStr ''fifteen'')"
    by simp
  have "int_of_str ''fifteen'' = None" by code_simp
  then show "float_of_str example_py ''fifteen'' = None" by (simp add: example_py_def)
qed

section \<open>Dynamic columns on the BREWED_WITH edge\<close>

lemma dyn_param_lookup:
  "map_of (dyn_param py r mp col) c =
     (if c = col \<and> col \<notin> set core_columns \<and> pd_notna py (row_get r col PNone) \<and>
         row_get r col PNone \<noteq> PStr []
      then Some (coerced py (row_get r col PNone)) else map_of mp c)"
  by (simp add: dyn_param_def Let_def update_conv' coerced_def split: sum.splits)

lemma foldl_dyn_param_lookup:
  "map_of (foldl (dyn_param py r) mp cols) c =
     (if c \<in> set cols \<and> c \<notin> set core_columns \<and> pd_notna py (row_get r c PNone) \<and>
         row_get r c PNone \<noteq> PStr []
      then Some (coerced py (row_get r c PNone)) else map_of mp c)"
proof (induction cols arbitrary: mp)
  case Nil
  show ?case by simp
next
  case (Cons col cols)
  have "map_of (foldl (dyn_param py r) mp (col # cols)) c =
        map_of (foldl (dyn_param py r) (dyn_param py r mp col) cols) c"
    by simp
  also have "\<dots> =
     (if c \<in> set cols \<and> c \<notin> set core_columns \<and> pd_notna py (row_get r c PNone) \<and>
         row_get r c PNone \<noteq> PStr []
      then Some (coerced py (row_get r c PNone)) else map_of (dyn_param py r mp col) c)"
    by (rule Cons.IH)
  also have "\<dots> =
     (if c \<in> set (col # cols) \<and> c \<notin> set core_columns \<and> pd_notna py (row_get r c PNone) \<and>
         row_get r c PNone \<noteq> PStr []
      then Some (coerced py (row_get r c PNone)) else map_of mp c)"
    unfolding dyn_param_lookup by auto
  finally show ?case .
qed

lemma brew_method_core: "''brew_method'' \<in> set core_columns"
  by (simp add: core_columns_def)

lemma method_params_lookup:
  assumes "c \<notin> set core_columns"
  shows "map_of (method_params py cols r m) c =
     (if c \<in> set cols \<and> pd_notna py (row_get r c PNone) \<and> row_get r c PNone \<noteq> PStr []
      then Some (coerced py (row_get r c PNone)) else None)"
proof -
  from assms brew_method_core have "c \<noteq> ''brew_method''" by blast
  with assms show ?thesis by (simp add: method_params_def foldl_dyn_param_lookup)
qed

lemma dyn_param_distinct: "distinct (map fst mp) \<Longrightarrow> distinct (map fst (dyn_param py r mp col))"
  by (simp add: dyn_param_def Let_def distinct_update split: sum.splits)

lemma method_params_distinct: "distinct (map fst (method_params py cols r m))"
proof -
  have "distinct (map fst mp) \<Longrightarrow> distinct (map fst (foldl (dyn_param py r) mp cols))" for mp
    by (induction cols arbitrary: mp) (simp_all add: dyn_param_distinct)
  then show ?thesis by (simp add: method_params_def)
qed

lemma dict_update_map_of:
  assumes "distinct (map fst kw)" and "map_of kw k = Some v"
  shows "dict_update d kw k = Some v"
  using assms(1) map_of_SomeD [OF assms(2)] by (rule dict_update_in)

text \<open>
  C4, as amended: for every row that is processed and every dynamic column (a table
  column outside the core set), when the cell is present (not null and not the empty
  string) the dynamic map holds under the column name the cell coerced to a number when
  \<^verbatim>\<open>float\<close> accepts it and otherwise its string form as it stands, untrimmed, and the
  \<^verbatim>\<open>BREWED_WITH\<close> edge of the row carries that key and value; when the cell is null or
  empty the dynamic map has no entry for the column.
\<close>

theorem dynamic_columns_on_brewed_with:
  assumes "process_row py cols G r = Inr G'" and "read_row py r = Inr f"
    and "c \<in> set cols" and "c \<notin> set core_columns"
  shows "if pd_notna py (row_get r c PNone) \<and> row_get r c PNone \<noteq> PStr []
         then map_of (method_params py cols r (brew_method f)) c =
                Some (coerced py (row_get r c PNone)) \<and>
              (\<exists>a. edges G' (brew_session_id f, brewer_id f, ''BREWED_WITH'') = Some a \<and>
                   a c = Some (coerced py (row_get r c PNone)))
         else map_of (method_params py cols r (brew_method f)) c = None"
proof (cases "pd_notna py (row_get r c PNone) \<and> row_get r c PNone \<noteq> PStr []")
  case False
  with assms(3,4) show ?thesis by (simp add: method_params_lookup)
next
  case True
  let ?mp = "method_params py cols r (brew_method f)"
  let ?v = "coerced py (row_get r c PNone)"
  let ?kw = "(''type'', PStr ''BREWED_WITH'') # ?mp"
  from True assms(3,4) have m: "map_of ?mp c = Some ?v" by (simp add: method_params_lookup)
  from assms(1) obtain f' G1 where f': "read_row py r = Inr f'"
    and e: "add_edges G1 f' (method_params py cols r (brew_method f')) = Inr G'"
    by (rule process_row_steps)
  from f' assms(2) have "f' = f" by simp
  with e have "\<not> has_key [''G'', ''src'', ''rel'', ''dst'', ''key'', ''type'', ''u_for_edge'',
            ''v_for_edge''] ?mp"
    using add_edges_no_reserved by blast
  then have "''type'' \<notin> fst ` set ?mp" by (simp add: has_key_iff)
  then have d: "distinct (map fst ?kw)" using method_params_distinct [of py cols r "brew_method f"]
    by simp
  from m have "c \<in> fst ` set ?mp" by (metis map_of_eq_None_iff option.distinct(1))
  with \<open>''type'' \<notin> fst ` set ?mp\<close> have "c \<noteq> ''type''" by blast
  with m have "map_of ?kw c = Some ?v" by simp
  with d have "dict_update
       (case edges G (brew_session_id f, brewer_id f, ''BREWED_WITH'') of
          None \<Rightarrow> Map.empty | Some x \<Rightarrow> x) ?kw c = Some ?v"
    by (rule dict_update_map_of)
  with process_row_brewed_with [OF assms(1,2)] m True show ?thesis by simp
qed

section \<open>Edges that recur: the payload is updated, not replaced\<close>

lemma str_field_str: "r k = Some (PStr s) \<Longrightarrow> str_field py r k d = s"
  by (simp add: str_field_def row_get_def)

lemma process_row_edge:
  assumes "read_row py r = Inr f"
    and "\<not> has_key reserved_edge_keys (method_params py cols r (brew_method f))"
  shows "\<exists>G'. process_row py cols G r = Inr G' \<and>
     edges G' (brew_session_id f, brewer_id f, ''BREWED_WITH'') =
       Some (dict_update
         (case edges G (brew_session_id f, brewer_id f, ''BREWED_WITH'') of
            None \<Rightarrow> Map.empty | Some x \<Rightarrow> x)
         ((''type'', PStr ''BREWED_WITH'') # method_params py cols r (brew_method f)))"
proof -
  from assms obtain G' where g: "process_row py cols G r = Inr G'"
    using process_row_ok by blast
  from process_row_brewed_with [OF g assms(1)] g show ?thesis by blast
qed

lemma hario_ids:
  assumes "read_row example_py r = Inr f"
    and "r ''brew_id'' = Some (PStr ''b1'')" and "r ''brewer_brand'' = Some (PStr ''Hario'')"
    and "r ''brewer_model'' = Some (PStr ''V60'')" and "r ''brew_method'' = Some (PStr ''pour over'')"
  shows "brew_session_id f = ''brew:b1''" and "brewer_id f = ''brewer:hario-v60''"
    and "brew_method f = ''pour over''"
proof -
  note fs = read_row_fields [OF assms(1)]
  have a: "slugify ''b1'' = ''b1''" by code_simp
  have b: "slugify ''Hario'' = ''hario''" by code_simp
  have c: "slugify ''V60'' = ''v60''" by code_simp
  from fs assms(2) have "brew_id f = ''b1''" by (simp add: str_field_str)
  then show "brew_session_id f = ''brew:b1''" by (simp add: brew_session_id_def a)
  from fs assms(3,4) have "brewer_brand f = ''Hario''" "brewer_model f = ''V60''"
    by (simp_all add: str_field_str)
  then show "brewer_id f = ''brewer:hario-v60''" by (simp add: brewer_id_def b c)
  from fs assms(5) show "brew_method f = ''pour over''" by (simp add: str_field_str)
qed

lemma example_row_floats:
  assumes "k \<notin> set numeric_fields"
  shows "list_all (\<lambda>c. \<not> isl (float_field example_py ((example_row b m)(k \<mapsto> v)) c)) numeric_fields"
proof -
  have "float_field example_py ((example_row b m)(k \<mapsto> v)) c = Inr (Some i)"
    if "example_row b m c = Some (PInt i)" and "c \<noteq> k" for c i
    using that by (simp add: float_field_def row_get_def example_py_def)
  moreover have "example_row b m ''dose_g'' = Some (PInt 15)"
    "example_row b m ''total_brew_time_sec'' = Some (PInt 180)"
    "example_row b m ''sweetness_0_10'' = Some (PInt 7)"
    "example_row b m ''acidity_0_10'' = Some (PInt 6)"
    "example_row b m ''bitterness_0_10'' = Some (PInt 2)"
    "example_row b m ''body_0_10'' = Some (PInt 5)"
    "example_row b m ''overall_0_10'' = Some (PInt 8)"
    by (simp_all add: example_row_def)
  moreover from assms have "''dose_g'' \<noteq> k" "''total_brew_time_sec'' \<noteq> k"
    "''sweetness_0_10'' \<noteq> k" "''acidity_0_10'' \<noteq> k" "''bitterness_0_10'' \<noteq> k"
    "''body_0_10'' \<noteq> k" "''overall_0_10'' \<noteq> k"
    by (auto simp: numeric_fields_def)
  ultimately show ?thesis by (simp add: numeric_fields_def)
qed

lemma example_row_entries:
  "example_row b m ''brew_id'' = Some (PStr b)"
  "example_row b m ''brewer_brand'' = Some (PStr ''Hario'')"
  "example_row b m ''brewer_model'' = Some (PStr m)"
  "example_row b m ''brew_method'' = Some (PStr ''pour over'')"
  by (simp_all add: example_row_def)

text \<open>
  C4 as stated fails: the text of a dynamic cell is stored as it stands, not trimmed.
\<close>

theorem dynamic_text_trimmed_counterexample:
  "edge_attr (build_graph_from_brews example_py kettle_table)
     (''brew:b1'', ''brewer:hario-v60'', ''BREWED_WITH'') ''kettle'' = Some (PStr '' gooseneck '') \<and>
   py_strip '' gooseneck '' = ''gooseneck''"
proof -
  let ?r = "(example_row ''b1'' ''V60'')(''kettle'' \<mapsto> PStr '' gooseneck '')"
  let ?cols = "required @ [''kettle'']"
  have "''kettle'' \<notin> set numeric_fields" by (simp add: numeric_fields_def)
  then obtain f where f: "read_row example_py ?r = Inr f"
    using example_row_floats read_row_ok by blast
  note ids = hario_ids [OF f]
  have i: "brew_session_id f = ''brew:b1''" "brewer_id f = ''brewer:hario-v60''"
    "brew_method f = ''pour over''"
    by (rule ids; simp add: example_row_entries)+
  have mp: "method_params example_py ?cols ?r ''pour over'' =
    [(''brew_method'', PStr ''pour over''), (''kettle'', PStr '' gooseneck '')]"
    by code_simp
  have "\<not> has_key reserved_edge_keys (method_params example_py ?cols ?r (brew_method f))"
    by (simp add: i mp has_key_def reserved_edge_keys_def)
  with f obtain G' where g: "process_row example_py ?cols empty_graph ?r = Inr G'"
    and e: "edges G' (brew_session_id f, brewer_id f, ''BREWED_WITH'') =
       Some (dict_update
         (case edges (empty_graph :: (int option) graph)
                 (brew_session_id f, brewer_id f, ''BREWED_WITH'') of
            None \<Rightarrow> Map.empty | Some x \<Rightarrow> x)
         ((''type'', PStr ''BREWED_WITH'') # method_params example_py ?cols ?r (brew_method f)))"
    using process_row_edge by blast
  from e have "\<exists>a. edges G' (''brew:b1'', ''brewer:hario-v60'', ''BREWED_WITH'') = Some a \<and>
      a ''kettle'' = Some (PStr '' gooseneck '')"
    by (simp add: i mp empty_graph_def dict_update_def)
  moreover have "build_graph_from_brews example_py kettle_table = Inr G'"
    by (simp add: build_graph_from_brews_def kettle_table_def g ebind_Inr)
  moreover have "py_strip '' gooseneck '' = ''gooseneck''" by code_simp
  ultimately show ?thesis by (auto simp: edge_attr_def)
qed


theorem dynamic_columns_on_brewed_with_witness:
  "edge_attr (process_row example_py [''water_temp_c'', ''bloom_sec''] empty_graph
      ((example_row ''b1'' ''V60'')(''water_temp_c'' \<mapsto> PStr ''93'')))
     (''brew:b1'', ''brewer:hario-v60'', ''BREWED_WITH'') ''water_temp_c'' =
     Some (PFloat (Some 93)) \<and>
   map_of (method_params example_py [''water_temp_c'', ''bloom_sec'']
      ((example_row ''b1'' ''V60'')(''water_temp_c'' \<mapsto> PStr ''93'')) ''pour over'')
     ''bloom_sec'' = None"
proof -
  let ?r = "(example_row ''b1'' ''V60'')(''water_temp_c'' \<mapsto> PStr ''93'')"
  let ?cols = "[''water_temp_c'', ''bloom_sec'']"
  have "''water_temp_c'' \<notin> set numeric_fields" by (simp add: numeric_fields_def)
  then obtain f where f: "read_row example_py ?r = Inr f"
    using example_row_floats read_row_ok by blast
  note ids = hario_ids [OF f]
  have i: "brew_session_id f = ''brew:b1''" "brewer_id f = ''brewer:hario-v60''"
    "brew_method f = ''pour over''"
    by (rule ids; simp add: example_row_entries)+
  have mp: "method_params example_py ?cols ?r ''pour over'' =
    [(''brew_method'', PStr ''pour over''), (''water_temp_c'', PFloat (Some 93))]"
    by code_simp
  have "\<not> has_key reserved_edge_keys (method_params example_py ?cols ?r (brew_method f))"
    by (simp add: i mp has_key_def reserved_edge_keys_def)
  with f obtain G' where g: "process_row example_py ?cols empty_graph ?r = Inr G'"
    using process_row_ok by blast
  have w: "''water_temp_c'' \<in> set ?cols" "''water_temp_c'' \<notin> set core_columns"
    and b: "''bloom_sec'' \<in> set ?cols" "''bloom_sec'' \<notin> set core_columns"
    by (simp_all add: core_columns_def)
  have v: "row_get ?r ''water_temp_c'' PNone = PStr ''93''"
    "row_get ?r ''bloom_sec'' PNone = PNone"
    by (simp_all add: row_get_def example_row_def)
  have "int_of_str ''93'' = Some 93" by code_simp
  then have c: "coerced example_py (PStr ''93'') = PFloat (Some 93)"
    by (simp add: coerced_def example_py_def)
  from dynamic_columns_on_brewed_with [OF g f w]
  have "\<exists>a. edges G' (''brew:b1'', ''brewer:hario-v60'', ''BREWED_WITH'') = Some a \<and>
      a ''water_temp_c'' = Some (PFloat (Some 93))"
    by (simp add: v c i)
  moreover from dynamic_columns_on_brewed_with [OF g f b]
  have "map_of (method_params example_py ?cols ?r ''pour over'') ''bloom_sec'' = None"
    by (simp add: v i)
  ultimately show ?thesis using g by (auto simp: edge_attr_def)
qed

text \<open>
  C1, as amended: re-adding an edge with the same (source, destination, relationship
  type) updates the attribute payload of the edge key by key: every key of the later
  payload holds the later value, and every other key keeps what the edge held before,
  so a key that only the earlier payload supplied survives.
\<close>

theorem add_edge_updates_per_key:
  assumes "add_edge G s r d p1 = Inr G1" and "add_edge G1 s r d p2 = Inr G2"
    and "distinct (map fst p2)"
  shows "\<exists>a1 a2. edges G1 (s, d, r) = Some a1 \<and> edges G2 (s, d, r) = Some a2 \<and>
     (\<forall>k v. (k, v) \<in> set p2 \<longrightarrow> a2 k = Some v) \<and>
     (\<forall>k. k \<notin> fst ` set p2 \<longrightarrow> a2 k = a1 k)"
proof -
  let ?a0 = "case edges G (s, d, r) of None \<Rightarrow> Map.empty | Some x \<Rightarrow> x"
  let ?a1 = "dict_update ?a0 ((''type'', PStr r) # p1)"
  let ?a2 = "dict_update ?a1 ((''type'', PStr r) # p2)"
  have 1: "edges G1 (s, d, r) = Some ?a1" using assms(1) by (rule add_edge_edges_same)
  have 2: "edges G2 (s, d, r) = Some ?a2"
    using add_edge_edges_same [OF assms(2)] by (simp add: 1)
  have t1: "''type'' \<notin> fst ` set p1" using assms(1) by (rule add_edge_no_type)
  have t2: "''type'' \<notin> fst ` set p2" using assms(2) by (rule add_edge_no_type)
  then have d2: "distinct (map fst ((''type'', PStr r) # p2))" using assms(3) by simp
  have in2: "?a2 k = Some v" if "(k, v) \<in> set p2" for k v
    using d2 by (rule dict_update_in) (use that in simp)
  have ty1: "?a1 ''type'' = Some (PStr r)"
    using t1 by (simp add: dict_update_Cons dict_update_notin)
  have ty2: "?a2 ''type'' = Some (PStr r)"
    using t2 by (simp add: dict_update_Cons dict_update_notin)
  have out2: "?a2 k = ?a1 k" if "k \<notin> fst ` set p2" for k
  proof (cases "k = ''type''")
    case True
    with ty1 ty2 show ?thesis by simp
  next
    case False
    with that show ?thesis by (simp add: dict_update_Cons dict_update_notin)
  qed
  from 1 2 in2 out2 show ?thesis by blast
qed

theorem add_edge_updates_per_key_witness:
  "edge_attr
     (ebind (add_edge (empty_graph :: (int option) graph) ''brew:b1'' ''BREWED_WITH''
               ''brewer:hario-v60''
               [(''brew_method'', PStr ''pour over''), (''water_temp_c'', PFloat (Some 93))])
        (\<lambda>G1. add_edge G1 ''brew:b1'' ''BREWED_WITH'' ''brewer:hario-v60''
               [(''brew_method'', PStr ''immersion'')]))
     (''brew:b1'', ''brewer:hario-v60'', ''BREWED_WITH'') ''brew_method'' =
     Some (PStr ''immersion'') \<and>
   edge_attr
     (ebind (add_edge (empty_graph :: (int option) graph) ''brew:b1'' ''BREWED_WITH''
               ''brewer:hario-v60''
               [(''brew_method'', PStr ''pour over''), (''water_temp_c'', PFloat (Some 93))])
        (\<lambda>G1. add_edge G1 ''brew:b1'' ''BREWED_WITH'' ''brewer:hario-v60''
               [(''brew_method'', PStr ''immersion'')]))
     (''brew:b1'', ''brewer:hario-v60'', ''BREWED_WITH'') ''water_temp_c'' =
     Some (PFloat (Some 93))"
proof -
  let ?p1 = "[(''brew_method'', PStr ''pour over''), (''water_temp_c'', PFloat (Some 93))]
    :: (int option) kwargs"
  let ?p2 = "[(''brew_method'', PStr ''immersion'')] :: (int option) kwargs"
  let ?e = "(''brew:b1'', ''brewer:hario-v60'', ''BREWED_WITH'')"
  have "\<not> has_key reserved_edge_keys ?p1" "\<not> has_key reserved_edge_keys ?p2"
    by (simp_all add: has_key_def reserved_edge_keys_def)
  then obtain G1 G2
    where 1: "add_edge empty_graph ''brew:b1'' ''BREWED_WITH'' ''brewer:hario-v60'' ?p1 = Inr G1"
      and 2: "add_edge G1 ''brew:b1'' ''BREWED_WITH'' ''brewer:hario-v60'' ?p2 = Inr G2"
    using add_edge_ok by metis
  have d: "distinct (map fst ?p2)" by simp
  from add_edge_updates_per_key [OF 1 2 d] obtain a1 a2
    where a1: "edges G1 ?e = Some a1" and a2: "edges G2 ?e = Some a2"
      and new: "\<And>k v. (k, v) \<in> set ?p2 \<Longrightarrow> a2 k = Some v"
      and old: "\<And>k. k \<notin> fst ` set ?p2 \<Longrightarrow> a2 k = a1 k"
    by blast
  from add_edge_edges_same [OF 1] a1 have "a1 ''water_temp_c'' = Some (PFloat (Some 93))"
    by (simp add: empty_graph_def dict_update_def)
  moreover have "a2 ''water_temp_c'' = a1 ''water_temp_c''" by (rule old) simp
  moreover have "a2 ''brew_method'' = Some (PStr ''immersion'')" by (rule new) simp
  ultimately show ?thesis using 1 2 a2 by (simp add: edge_attr_def ebind_Inr)
qed

text \<open>
  C1 as stated fails: in \<open>two_brews\<close> both rows produce the same \<^verbatim>\<open>BREWED_WITH\<close> edge, the
  payload of the later row has no \<^verbatim>\<open>water_temp_c\<close>, and the edge of the finished graph
  still carries the \<^verbatim>\<open>water_temp_c\<close> of the earlier row.
\<close>

theorem edge_payload_replaced_counterexample:
  "edge_attr (build_graph_from_brews example_py two_brews)
     (''brew:b1'', ''brewer:hario-v60'', ''BREWED_WITH'') ''water_temp_c'' =
     Some (PFloat (Some 93)) \<and>
   map_of (method_params example_py (columns two_brews) (last (rows two_brews)) ''pour over'')
     ''water_temp_c'' = None"
proof -
  let ?r1 = "(example_row ''b1'' ''V60'')(''water_temp_c'' \<mapsto> PFloat (Some 93))"
  let ?r2 = "(example_row ''b1'' ''V60'')(''water_temp_c'' \<mapsto> PFloat None)"
  let ?cols = "required @ [''water_temp_c'']"
  let ?e = "(''brew:b1'', ''brewer:hario-v60'', ''BREWED_WITH'')"
  have n: "''water_temp_c'' \<notin> set numeric_fields" by (simp add: numeric_fields_def)
  from n obtain f1 where f1: "read_row example_py ?r1 = Inr f1"
    using example_row_floats read_row_ok by blast
  from n obtain f2 where f2: "read_row example_py ?r2 = Inr f2"
    using example_row_floats read_row_ok by blast
  have i1: "brew_session_id f1 = ''brew:b1''" "brewer_id f1 = ''brewer:hario-v60''"
    "brew_method f1 = ''pour over''"
    by (rule hario_ids [OF f1]; simp add: example_row_entries)+
  have i2: "brew_session_id f2 = ''brew:b1''" "brewer_id f2 = ''brewer:hario-v60''"
    "brew_method f2 = ''pour over''"
    by (rule hario_ids [OF f2]; simp add: example_row_entries)+
  have mp1: "method_params example_py ?cols ?r1 ''pour over'' =
    [(''brew_method'', PStr ''pour over''), (''water_temp_c'', PFloat (Some 93))]"
    by code_simp
  have mp2: "method_params example_py ?cols ?r2 ''pour over'' =
    [(''brew_method'', PStr ''pour over'')]"
    by code_simp
  have "\<not> has_key reserved_edge_keys (method_params example_py ?cols ?r1 (brew_method f1))"
    by (simp add: i1 mp1 has_key_def reserved_edge_keys_def)
  with f1 obtain G1 where g1: "process_row example_py ?cols empty_graph ?r1 = Inr G1"
    and e1: "edges G1 (brew_session_id f1, brewer_id f1, ''BREWED_WITH'') =
       Some (dict_update
         (case edges (empty_graph :: (int option) graph)
                 (brew_session_id f1, brewer_id f1, ''BREWED_WITH'') of
            None \<Rightarrow> Map.empty | Some x \<Rightarrow> x)
         ((''type'', PStr ''BREWED_WITH'') # method_params example_py ?cols ?r1 (brew_method f1)))"
    using process_row_edge by blast
  have "\<not> has_key reserved_edge_keys (method_params example_py ?cols ?r2 (brew_method f2))"
    by (simp add: i2 mp2 has_key_def reserved_edge_keys_def)
  with f2 obtain G2 where g2: "process_row example_py ?cols G1 ?r2 = Inr G2"
    and e2: "edges G2 (brew_session_id f2, brewer_id f2, ''BREWED_WITH'') =
       Some (dict_update
         (case edges G1 (brew_session_id f2, brewer_id f2, ''BREWED_WITH'') of
            None \<Rightarrow> Map.empty | Some x \<Rightarrow> x)
         ((''type'', PStr ''BREWED_WITH'') # method_params example_py ?cols ?r2 (brew_method f2)))"
    using process_row_edge by blast
  from e1 have e1': "edges G1 ?e = Some (dict_update Map.empty
      [(''type'', PStr ''BREWED_WITH''), (''brew_method'', PStr ''pour over''),
       (''water_temp_c'', PFloat (Some 93))])"
    by (simp add: i1 mp1 empty_graph_def)
  from e2 have "\<exists>a. edges G2 ?e = Some a \<and> a ''water_temp_c'' = Some (PFloat (Some 93))"
    by (simp add: i2 mp2 e1' dict_update_def)
  moreover have "build_graph_from_brews example_py two_brews = Inr G2"
    by (simp add: build_graph_from_brews_def two_brews_def g1 g2 ebind_Inr)
  moreover have "map_of (method_params example_py (columns two_brews) (last (rows two_brews))
      ''pour over'') ''water_temp_c'' = None"
    by (simp add: two_brews_def mp2)
  ultimately show ?thesis by (auto simp: edge_attr_def)
qed

end
